theory Spec2Isabelle
  imports Main "HOL-Library.Word"
begin

section \<open>certstorage: certmagic storage and distributed locks on an object store\<close>

text \<open>
  A shallow embedding of \<^verbatim>\<open>pkg/certstorage/certstorage.go\<close>. The Go struct \<^verbatim>\<open>GCS\<close> is a
  record, its methods are functions that take the receiver and the state of everything
  outside the process and return the new ones. Packages that the file only calls
  (\<^verbatim>\<open>gcsops\<close>, \<^verbatim>\<open>gcslock\<close>, \<^verbatim>\<open>time\<close>, \<^verbatim>\<open>strconv\<close>) are parameters, collected in the
  record \<open>env\<close>. Every call to them, every \<^verbatim>\<open>gcs.mu.Lock()\<close> and \<^verbatim>\<open>gcs.mu.Unlock()\<close> and every
  \<^verbatim>\<open>mon.Event\<close> is appended to a trace in source order, so that the order of the statements
  of a method can be stated and proved.
\<close>

subsection \<open>Errors\<close>

type_synonym byte = "8 word"

text \<open>
  Go error values. \<open>ErrNotFound\<close> is \<^verbatim>\<open>gcsops.ErrNotFound\<close>, \<open>ErrNotExist\<close> is
  \<^verbatim>\<open>fs.ErrNotExist\<close>, \<open>Msg\<close> is any other leaf error, \<open>Class c e\<close> is the error \<open>e\<close> wrapped
  by the \<^verbatim>\<open>errs.Class\<close> named \<open>c\<close>, and \<open>Combined\<close> is what \<^verbatim>\<open>errs.Combine\<close> builds from two
  errors. A Go \<^verbatim>\<open>error\<close> that may be nil is an \<open>error option\<close>.
\<close>

datatype error =
    ErrNotFound
  | ErrNotExist
  | Msg string
  | Class string error
  | Combined error error

text \<open>\<^verbatim>\<open>errs.Is(err, target)\<close>: \<open>target\<close> occurs in the chain of \<open>err\<close>; nil matches nothing.\<close>

fun chain_Is :: "error \<Rightarrow> error \<Rightarrow> bool" where
  "chain_Is (Class c e) t = (Class c e = t \<or> chain_Is e t)"
| "chain_Is (Combined a b) t = (Combined a b = t \<or> chain_Is a t \<or> chain_Is b t)"
| "chain_Is e t = (e = t)"

definition errs_Is :: "error option \<Rightarrow> error \<Rightarrow> bool" where
  "errs_Is err t = (case err of None \<Rightarrow> False | Some e \<Rightarrow> chain_Is e t)"

text \<open>\<^verbatim>\<open>var Error = errs.Class("certstorage")\<close>\<close>

definition Error :: string where
  "Error = ''certstorage''"

text \<open>
  \<^verbatim>\<open>Error.Wrap(err)\<close>: nil stays nil, an error that already carries the class is returned
  as it is, any other error is wrapped.
\<close>

definition Class_wrap :: "error \<Rightarrow> error" where
  "Class_wrap e =
     (case e of
        Class c e' \<Rightarrow> if c = Error then e else Class Error e
      | _ \<Rightarrow> Class Error e)"

definition Error_Wrap :: "error option \<Rightarrow> error option" where
  "Error_Wrap err = (case err of None \<Rightarrow> None | Some e \<Rightarrow> Some (Class_wrap e))"

text \<open>\<^verbatim>\<open>Error.New(msg)\<close>, with the format already applied.\<close>

definition Error_New :: "string \<Rightarrow> error" where
  "Error_New msg = Class Error (Msg msg)"

text \<open>\<^verbatim>\<open>errs.Combine(a, b)\<close>: nil arguments are dropped; one error is returned alone.\<close>

definition errs_Combine :: "error option \<Rightarrow> error option \<Rightarrow> error option" where
  "errs_Combine a b =
     (case a of
        None \<Rightarrow> b
      | Some x \<Rightarrow> (case b of None \<Rightarrow> Some x | Some y \<Rightarrow> Some (Combined x y)))"

subsection \<open>Strings\<close>

text \<open>\<^verbatim>\<open>strings.HasPrefix\<close>, \<^verbatim>\<open>strings.HasSuffix\<close>, \<^verbatim>\<open>strings.TrimSuffix\<close>, \<^verbatim>\<open>strings.Cut\<close>.\<close>

definition strings_HasPrefix :: "string \<Rightarrow> string \<Rightarrow> bool" where
  "strings_HasPrefix s p = (length p \<le> length s \<and> take (length p) s = p)"

definition strings_HasSuffix :: "string \<Rightarrow> string \<Rightarrow> bool" where
  "strings_HasSuffix s x = (length x \<le> length s \<and> drop (length s - length x) s = x)"

definition strings_TrimSuffix :: "string \<Rightarrow> string \<Rightarrow> string" where
  "strings_TrimSuffix s x =
     (if strings_HasSuffix s x then take (length s - length x) s else s)"

text \<open>
  \<^verbatim>\<open>strings.Cut(s, sep)\<close> returns the text before and after the first occurrence of
  \<open>sep\<close>, or \<open>(s, "", false)\<close> when there is none.
\<close>

fun strings_Cut :: "string \<Rightarrow> string \<Rightarrow> string \<times> string \<times> bool" where
  "strings_Cut [] sep = ([], [], sep = [])"
| "strings_Cut (c # cs) sep =
     (if strings_HasPrefix (c # cs) sep then ([], drop (length sep) (c # cs), True)
      else (case strings_Cut cs sep of (before, after, found) \<Rightarrow> (c # before, after, found)))"

text \<open>\<^verbatim>\<open>strconv.FormatBool\<close>\<close>

definition strconv_FormatBool :: "bool \<Rightarrow> string" where
  "strconv_FormatBool b = (if b then ''true'' else ''false'')"

text \<open>The number of separators at the end of a string.\<close>

definition trailing_seps :: "string \<Rightarrow> nat" where
  "trailing_seps s = length (takeWhile (\<lambda>c. c = CHR ''/'') (rev s))"

subsection \<open>The data model\<close>

text \<open>
  Pointers to values of other packages are addresses, \<open>nil\<close> is address 0; the values
  behind them belong to the world outside. A \<^verbatim>\<open>*zap.Logger\<close> is its name.
\<close>

type_synonym client = nat
type_synonym mutex = nat

type_synonym logger = string
type_synonym time = int

definition nil :: nat where
  "nil = 0"

text \<open>\<^verbatim>\<open>gcslock.Options\<close>, with the four fields that \<^verbatim>\<open>Lock\<close> fills in.\<close>

record Options =
  Name :: string
  Bucket :: string
  Logger :: logger
  Client :: client

text \<open>\<^verbatim>\<open>certmagic.KeyInfo\<close>\<close>

record KeyInfo =
  Key :: string
  Modified :: time
  Size :: "64 word"
  IsTerminal :: bool

text \<open>
  The \<^verbatim>\<open>io.ReadCloser\<close> that \<^verbatim>\<open>Download\<close> returns: the bytes \<^verbatim>\<open>io.ReadAll\<close> reads from it and
  the error it stops on, and the error of \<^verbatim>\<open>Close\<close>.
\<close>

record ReadCloser =
  rc_bytes :: "byte list"
  rc_read_err :: "error option"
  rc_close_err :: "error option"

text \<open>Response headers; \<^verbatim>\<open>Get\<close> returns the empty string for a header that is not set.\<close>

type_synonym header = "string \<rightharpoonup> string"

definition header_Get :: "header \<Rightarrow> string \<Rightarrow> string" where
  "header_Get h k = (case h k of None \<Rightarrow> [] | Some v \<Rightarrow> v)"

text \<open>
  The struct \<^verbatim>\<open>GCS\<close>. \<open>mu\<close> is the \<^verbatim>\<open>sync.Mutex\<close>: true while it is locked.
\<close>

record GCS =
  logger :: logger
  client :: client
  bucket :: string
  prefix :: string
  locks :: "string \<rightharpoonup> mutex"
  mu :: bool

subsection \<open>The world outside and the trace\<close>

datatype call =
    CallNewClient "byte list"
  | CallTestPermissions string
  | CallNewMutex Options
  | CallMutexLock mutex
  | CallMutexUnlock mutex
  | CallUpload string string "byte list"
  | CallDownload string string
  | CallDelete string string
  | CallStat string string
  | CallList string string bool

datatype event =
    MuLock
  | MuUnlock
  | Ext call
  | MonEvent string "(string \<times> string) list"

text \<open>
  The packages the file calls, over a state \<open>'w\<close> of the world outside the process (the
  bucket, the leases, the network). Each function takes the world and returns its result
  with the new world.
\<close>

record 'w env =
  gcsops_NewClient :: "byte list \<Rightarrow> 'w \<Rightarrow> (error + client) \<times> 'w"
  client_TestPermissions :: "client \<Rightarrow> string \<Rightarrow> 'w \<Rightarrow> error option \<times> 'w"
  client_Upload :: "client \<Rightarrow> string \<Rightarrow> string \<Rightarrow> byte list \<Rightarrow> 'w \<Rightarrow> error option \<times> 'w"
  client_Download :: "client \<Rightarrow> string \<Rightarrow> string \<Rightarrow> 'w \<Rightarrow> (error + ReadCloser) \<times> 'w"
  client_Delete :: "client \<Rightarrow> string \<Rightarrow> string \<Rightarrow> 'w \<Rightarrow> error option \<times> 'w"
  client_Stat :: "client \<Rightarrow> string \<Rightarrow> string \<Rightarrow> 'w \<Rightarrow> (error + header) \<times> 'w"
  client_List :: "client \<Rightarrow> string \<Rightarrow> string \<Rightarrow> bool \<Rightarrow> 'w \<Rightarrow> (string list \<times> error option) \<times> 'w"
  gcslock_NewMutex :: "Options \<Rightarrow> 'w \<Rightarrow> (error + mutex) \<times> 'w"
  Mutex_Lock :: "mutex \<Rightarrow> 'w \<Rightarrow> error option \<times> 'w"
  Mutex_Unlock :: "mutex \<Rightarrow> 'w \<Rightarrow> error option \<times> 'w"
  time_Parse :: "string \<Rightarrow> string \<Rightarrow> time \<times> error option"
  strconv_ParseInt :: "string \<Rightarrow> nat \<Rightarrow> nat \<Rightarrow> 64 word \<times> error option"

text \<open>What a method runs in: the world and the trace so far.\<close>

record 'w proc =
  world :: 'w
  trace :: "event list"

definition log :: "event \<Rightarrow> 'w proc \<Rightarrow> 'w proc" where
  "log e p = p\<lparr>trace := trace p @ [e]\<rparr>"

text \<open>A call to another package: it is logged, then it runs on the world.\<close>

definition ext :: "call \<Rightarrow> ('w \<Rightarrow> 'a \<times> 'w) \<Rightarrow> 'w proc \<Rightarrow> 'a \<times> 'w proc" where
  "ext c f p = (case f (world p) of (r, w') \<Rightarrow> (r, (log (Ext c) p)\<lparr>world := w'\<rparr>))"

text \<open>
  A method that does not return: \<^verbatim>\<open>gcs.mu.Lock()\<close> on a locked mutex waits for another
  goroutine (\<open>Blocked\<close>), and \<^verbatim>\<open>gcs.mu.Unlock()\<close> on an unlocked one is a fatal error of the
  Go runtime (\<open>UnlockOfUnlocked\<close>).
\<close>

datatype fault = Blocked | UnlockOfUnlocked

definition mu_Lock :: "GCS \<Rightarrow> 'w proc \<Rightarrow> fault + GCS \<times> 'w proc" where
  "mu_Lock g p = (if mu g then Inl Blocked else Inr (g\<lparr>mu := True\<rparr>, log MuLock p))"

definition mu_Unlock :: "GCS \<Rightarrow> 'w proc \<Rightarrow> fault + GCS \<times> 'w proc" where
  "mu_Unlock g p = (if mu g then Inr (g\<lparr>mu := False\<rparr>, log MuUnlock p) else Inl UnlockOfUnlocked)"

text \<open>\<^verbatim>\<open>logger.Named(s)\<close> of zap: names are joined by a dot; an empty \<open>s\<close> changes nothing.\<close>

definition logger_Named :: "logger \<Rightarrow> string \<Rightarrow> logger" where
  "logger_Named l s = (if s = [] then l else if l = [] then s else l @ ''.'' @ s)"

subsection \<open>Construction\<close>

text \<open>
  \<^verbatim>\<open>NewGCS(ctx, logger, jsonKey, path)\<close>. The Go function returns \<open>(nil, err)\<close> or
  \<open>(gcs, nil)\<close>: a sum.
\<close>

definition NewGCS ::
  "'w env \<Rightarrow> logger \<Rightarrow> byte list \<Rightarrow> string \<Rightarrow> 'w proc \<Rightarrow> (error + GCS) \<times> 'w proc" where
  "NewGCS env lg jsonKey path p0 =
     (case strings_Cut path ''/'' of
        (bkt, pre, found) \<Rightarrow>
          (let pre' = (if found then strings_TrimSuffix pre ''/'' @ ''/'' else pre);
               gcs = \<lparr>logger = lg, client = nil, bucket = bkt, prefix = pre',
                      locks = Map.empty, mu = False\<rparr>
           in case ext (CallNewClient jsonKey) (gcsops_NewClient env jsonKey) p0 of
                (Inl err, p1) \<Rightarrow> (Inl (Class_wrap err), p1)
              | (Inr c, p1) \<Rightarrow>
                  (case ext (CallTestPermissions bkt) (client_TestPermissions env c bkt) p1 of
                     (Some err, p2) \<Rightarrow> (Inl (Class_wrap err), p2)
                   | (None, p2) \<Rightarrow> (Inr (gcs\<lparr>client := c\<rparr>), p2))))"

subsection \<open>Lock and Unlock\<close>

text \<open>
  The end of \<^verbatim>\<open>Lock\<close>, common to a hit and a miss: \<^verbatim>\<open>gcs.mu.Unlock()\<close>, the \<^verbatim>\<open>mon.Event\<close> with
  the tag \<open>hit\<close>, and \<^verbatim>\<open>lock.Lock(ctx)\<close>.
\<close>

definition Lock_acquire ::
  "'w env \<Rightarrow> bool \<Rightarrow> mutex \<Rightarrow> GCS \<Rightarrow> 'w proc \<Rightarrow> fault + error option \<times> GCS \<times> 'w proc" where
  "Lock_acquire env ok lock g p =
     (case mu_Unlock g p of
        Inl f \<Rightarrow> Inl f
      | Inr (g', p') \<Rightarrow>
          (case ext (CallMutexLock lock) (Mutex_Lock env lock)
                  (log (MonEvent ''certstorage_lockcache'' [(''hit'', strconv_FormatBool ok)]) p') of
             (err, p'') \<Rightarrow> Inr (Error_Wrap err, g', p'')))"

definition Lock_options :: "GCS \<Rightarrow> string \<Rightarrow> Options" where
  "Lock_options g name =
     \<lparr>Name = prefix g @ name, Bucket = bucket g,
      Logger = logger_Named (logger g) (''distributed lock/'' @ name), Client = client g\<rparr>"

definition Lock ::
  "'w env \<Rightarrow> string \<Rightarrow> GCS \<Rightarrow> 'w proc \<Rightarrow> fault + error option \<times> GCS \<times> 'w proc" where
  "Lock env name g0 p0 =
     (case mu_Lock g0 p0 of
        Inl f \<Rightarrow> Inl f
      | Inr (g1, p1) \<Rightarrow>
          (case locks g1 name of
             None \<Rightarrow>
               (case ext (CallNewMutex (Lock_options g1 name))
                       (gcslock_NewMutex env (Lock_options g1 name)) p1 of
                  (Inl err, p2) \<Rightarrow>
                    (case mu_Unlock g1 p2 of
                       Inl f \<Rightarrow> Inl f
                     | Inr (g3, p3) \<Rightarrow> Inr (Some (Class_wrap err), g3, p3))
                | (Inr m, p2) \<Rightarrow>
                    Lock_acquire env False m (g1\<lparr>locks := (locks g1)(name \<mapsto> m)\<rparr>) p2)
           | Some lock \<Rightarrow> Lock_acquire env True lock g1 p1))"

definition Unlock ::
  "'w env \<Rightarrow> string \<Rightarrow> GCS \<Rightarrow> 'w proc \<Rightarrow> fault + error option \<times> GCS \<times> 'w proc" where
  "Unlock env name g0 p0 =
     (case mu_Lock g0 p0 of
        Inl f \<Rightarrow> Inl f
      | Inr (g1, p1) \<Rightarrow>
          (case locks g1 name of
             None \<Rightarrow>
               (case mu_Unlock g1 p1 of
                  Inl f \<Rightarrow> Inl f
                | Inr (g2, p2) \<Rightarrow>
                    Inr (Some (Error_New (''mutex for '' @ name @ '' not exists'')), g2,
                         log (MonEvent ''certstorage_mutex_not_exists'' []) p2))
           | Some lock \<Rightarrow>
               (case mu_Unlock g1 p1 of
                  Inl f \<Rightarrow> Inl f
                | Inr (g2, p2) \<Rightarrow>
                    (case ext (CallMutexUnlock lock) (Mutex_Unlock env lock) p2 of
                       (err, p3) \<Rightarrow> Inr (Error_Wrap err, g2, p3)))))"

subsection \<open>Store, Load, Delete, Exists, List, Stat\<close>

text \<open>
  These methods read \<open>bucket\<close>, \<open>prefix\<close> and \<open>client\<close> and write no field of the receiver,
  so they return their result and the new world only. The \<^verbatim>\<open>logger.Debug\<close> lines and the
  \<^verbatim>\<open>mon.Task\<close> wrappers observe and change nothing.
\<close>

definition Store :: "'w env \<Rightarrow> string \<Rightarrow> byte list \<Rightarrow> GCS \<Rightarrow> 'w proc \<Rightarrow> error option \<times> 'w proc" where
  "Store env key val g p =
     (let k = prefix g @ key
      in case ext (CallUpload (bucket g) k val) (client_Upload env (client g) (bucket g) k val) p of
           (err, p') \<Rightarrow> (Error_Wrap err, p'))"

text \<open>
  \<^verbatim>\<open>Load\<close> returns what \<^verbatim>\<open>io.ReadAll\<close> read, and the deferred function replaces the error by
  the wrapped combination of the read error and the error of \<^verbatim>\<open>rc.Close()\<close>. A nil slice is
  the empty list.
\<close>

definition Load :: "'w env \<Rightarrow> string \<Rightarrow> GCS \<Rightarrow> 'w proc \<Rightarrow> (byte list \<times> error option) \<times> 'w proc" where
  "Load env key g p =
     (let k = prefix g @ key
      in case ext (CallDownload (bucket g) k) (client_Download env (client g) (bucket g) k) p of
           (Inl err, p') \<Rightarrow>
             (if errs_Is (Some err) ErrNotFound then (([], Error_Wrap (Some ErrNotExist)), p')
              else (([], Error_Wrap (Some err)), p'))
         | (Inr rc, p') \<Rightarrow>
             ((rc_bytes rc, Error_Wrap (errs_Combine (rc_read_err rc) (rc_close_err rc))), p'))"

definition Delete :: "'w env \<Rightarrow> string \<Rightarrow> GCS \<Rightarrow> 'w proc \<Rightarrow> error option \<times> 'w proc" where
  "Delete env key g p =
     (let k = prefix g @ key
      in case ext (CallDelete (bucket g) k) (client_Delete env (client g) (bucket g) k) p of
           (err, p') \<Rightarrow>
             (if errs_Is err ErrNotFound then (Error_Wrap (Some ErrNotExist), p')
              else (Error_Wrap err, p')))"

definition Exists :: "'w env \<Rightarrow> string \<Rightarrow> GCS \<Rightarrow> 'w proc \<Rightarrow> bool \<times> 'w proc" where
  "Exists env key g p =
     (let k = prefix g @ key
      in case ext (CallStat (bucket g) k) (client_Stat env (client g) (bucket g) k) p of
           (Inl err, p') \<Rightarrow> (False, p')
         | (Inr headers, p') \<Rightarrow> (True, p'))"

definition List ::
  "'w env \<Rightarrow> string \<Rightarrow> bool \<Rightarrow> GCS \<Rightarrow> 'w proc \<Rightarrow> (string list \<times> error option) \<times> 'w proc" where
  "List env pre recursive g p =
     (let q = prefix g @ pre
      in case ext (CallList (bucket g) q recursive)
                (client_List env (client g) (bucket g) q recursive) p of
           ((r, err), p') \<Rightarrow> ((r, Error_Wrap err), p'))"

text \<open>\<^verbatim>\<open>time.RFC1123\<close>, and the zero value of \<^verbatim>\<open>certmagic.KeyInfo\<close>.\<close>

definition time_RFC1123 :: string where
  "time_RFC1123 = ''Mon, 02 Jan 2006 15:04:05 MST''"

definition KeyInfo_zero :: KeyInfo where
  "KeyInfo_zero = \<lparr>Key = [], Modified = 0, Size = 0, IsTerminal = False\<rparr>"

text \<open>
  \<^verbatim>\<open>Stat\<close> returns the pair \<open>(keyInfo, err)\<close> as the Go function does: on a parse error the
  fields assigned so far are in \<open>keyInfo\<close>, next to the error.
\<close>

definition Stat :: "'w env \<Rightarrow> string \<Rightarrow> GCS \<Rightarrow> 'w proc \<Rightarrow> (KeyInfo \<times> error option) \<times> 'w proc" where
  "Stat env key g p =
     (let k = prefix g @ key;
          keyInfo = KeyInfo_zero
      in case ext (CallStat (bucket g) k) (client_Stat env (client g) (bucket g) k) p of
           (Inl err, p') \<Rightarrow>
             (if errs_Is (Some err) ErrNotFound then ((keyInfo, Error_Wrap (Some ErrNotExist)), p')
              else ((keyInfo, Error_Wrap (Some err)), p'))
         | (Inr headers, p') \<Rightarrow>
             (let keyInfo1 = keyInfo\<lparr>Key := k, IsTerminal := True\<rparr>
              in case time_Parse env time_RFC1123 (header_Get headers ''last-modified'') of
                   (t, terr) \<Rightarrow>
                     (let keyInfo2 = keyInfo1\<lparr>Modified := t\<rparr>
                      in if terr \<noteq> None then ((keyInfo2, Error_Wrap terr), p')
                         else (case strconv_ParseInt env (header_Get headers ''content-length'') 10 64 of
                                 (n, nerr) \<Rightarrow>
                                   (let keyInfo3 = keyInfo2\<lparr>Size := n\<rparr>
                                    in if nerr \<noteq> None then ((keyInfo3, Error_Wrap nerr), p')
                                       else ((keyInfo3, None), p'))))))"

subsection \<open>Sequences of operations\<close>

text \<open>
  The methods of the storage interface as a datatype, and a process that calls them one
  after the other on one \<^verbatim>\<open>GCS\<close>. \<open>step\<close> drops the result of the call and keeps the
  receiver and the world.
\<close>

datatype op =
    OpLock string
  | OpUnlock string
  | OpStore string "byte list"
  | OpLoad string
  | OpDelete string
  | OpExists string
  | OpList string bool
  | OpStat string

fun step :: "'w env \<Rightarrow> op \<Rightarrow> GCS \<times> 'w proc \<Rightarrow> fault + GCS \<times> 'w proc" where
  "step env (OpLock n) (g, p) = map_sum id snd (Lock env n g p)"
| "step env (OpUnlock n) (g, p) = map_sum id snd (Unlock env n g p)"
| "step env (OpStore k v) (g, p) = Inr (g, snd (Store env k v g p))"
| "step env (OpLoad k) (g, p) = Inr (g, snd (Load env k g p))"
| "step env (OpDelete k) (g, p) = Inr (g, snd (Delete env k g p))"
| "step env (OpExists k) (g, p) = Inr (g, snd (Exists env k g p))"
| "step env (OpList k r) (g, p) = Inr (g, snd (List env k r g p))"
| "step env (OpStat k) (g, p) = Inr (g, snd (Stat env k g p))"

fun run :: "'w env \<Rightarrow> op list \<Rightarrow> GCS \<times> 'w proc \<Rightarrow> fault + GCS \<times> 'w proc" where
  "run env [] s = Inr s"
| "run env (x # xs) s = (case step env x s of Inl f \<Rightarrow> Inl f | Inr s' \<Rightarrow> run env xs s')"

subsection \<open>Reading a trace\<close>

text \<open>
  Whether \<open>gcs.mu\<close> is held after a run of events that started with it held or not, and
  the calls to other packages made while it was held.
\<close>

fun held_after :: "bool \<Rightarrow> event list \<Rightarrow> bool" where
  "held_after h [] = h"
| "held_after h (MuLock # es) = held_after True es"
| "held_after h (MuUnlock # es) = held_after False es"
| "held_after h (e # es) = held_after h es"

fun calls_while_held :: "bool \<Rightarrow> event list \<Rightarrow> call list" where
  "calls_while_held h [] = []"
| "calls_while_held h (MuLock # es) = calls_while_held True es"
| "calls_while_held h (MuUnlock # es) = calls_while_held False es"
| "calls_while_held h (Ext c # es) = (if h then c # calls_while_held h es else calls_while_held h es)"
| "calls_while_held h (e # es) = calls_while_held h es"

text \<open>The calls to other packages of a trace, in order.\<close>

fun calls :: "event list \<Rightarrow> call list" where
  "calls [] = []"
| "calls (Ext c # es) = c # calls es"
| "calls (e # es) = calls es"

subsection \<open>A concrete world\<close>

text \<open>
  An object store in memory and mutexes that are only counted, as an instance of \<open>env\<close> at
  which the theorems below are applied to concrete inputs. The bucket \<open>offline\<close> cannot be
  reached, the bucket \<open>forbidden\<close> fails the permissions probe, an uploaded object has no
  headers, and \<open>time_Parse\<close> and \<open>strconv_ParseInt\<close> know one timestamp and one number.
\<close>

record mem_world =
  objects :: "(string \<times> string) \<rightharpoonup> (byte list \<times> header)"
  mutexes :: nat
  held :: "mutex list"

definition mem_reader :: "byte list \<Rightarrow> ReadCloser" where
  "mem_reader v = \<lparr>rc_bytes = v, rc_read_err = None, rc_close_err = None\<rparr>"

definition mem_env :: "mem_world env" where
  "mem_env =
     \<lparr>gcsops_NewClient = (\<lambda>jsonKey w.
        (if jsonKey = [] then Inl (Msg ''missing credentials'') else Inr 1, w)),
      client_TestPermissions = (\<lambda>c b w.
        (if b = ''forbidden'' then Some (Msg ''permission denied'') else None, w)),
      client_Upload = (\<lambda>c b k v w.
        if b = ''offline'' then (Some (Msg ''connection refused''), w)
        else (None, w\<lparr>objects := (objects w)((b, k) \<mapsto> (v, Map.empty))\<rparr>)),
      client_Download = (\<lambda>c b k w.
        (if b = ''offline'' then Inl (Msg ''connection refused'')
         else case objects w (b, k) of
                None \<Rightarrow> Inl (Class ''gcsops'' ErrNotFound)
              | Some (v, h) \<Rightarrow> Inr (mem_reader v), w)),
      client_Delete = (\<lambda>c b k w.
        if b = ''offline'' then (Some (Msg ''connection refused''), w)
        else case objects w (b, k) of
               None \<Rightarrow> (Some (Class ''gcsops'' ErrNotFound), w)
             | Some x \<Rightarrow> (None, w\<lparr>objects := (objects w)((b, k) := None)\<rparr>)),
      client_Stat = (\<lambda>c b k w.
        (if b = ''offline'' then Inl (Msg ''connection refused'')
         else case objects w (b, k) of
                None \<Rightarrow> Inl (Class ''gcsops'' ErrNotFound)
              | Some (v, h) \<Rightarrow> Inr h, w)),
      client_List = (\<lambda>c b q r w. (([], Some (Msg ''listing is not supported'')), w)),
      gcslock_NewMutex = (\<lambda>opts w.
        if Name opts = [] then (Inl (Msg ''name is empty''), w)
        else (Inr (Suc (mutexes w)), w\<lparr>mutexes := Suc (mutexes w)\<rparr>)),
      Mutex_Lock = (\<lambda>m w. (None, w\<lparr>held := m # held w\<rparr>)),
      Mutex_Unlock = (\<lambda>m w.
        if m \<in> set (held w) then (None, w\<lparr>held := removeAll m (held w)\<rparr>)
        else (Some (Msg ''lock is not held''), w)),
      time_Parse = (\<lambda>layout s.
        if layout = ''Mon, 02 Jan 2006 15:04:05 MST'' \<and> s = ''Mon, 02 Jan 2006 15:04:05 GMT''
        then (1136214245, None) else (0, Some (Msg ''cannot parse time''))),
      strconv_ParseInt = (\<lambda>s base bits.
        if s = ''3'' \<and> base = 10 \<and> bits = 64 then (3, None)
        else (0, Some (Msg ''invalid syntax'')))\<rparr>"

definition mem_world0 :: mem_world where
  "mem_world0 = \<lparr>objects = Map.empty, mutexes = 0, held = []\<rparr>"

definition proc0 :: "mem_world proc" where
  "proc0 = \<lparr>world = mem_world0, trace = []\<rparr>"

definition gcs0 :: GCS where
  "gcs0 = \<lparr>logger = ''certmagic'', client = 1, bucket = ''bucket'', prefix = [],
           locks = Map.empty, mu = False\<rparr>"

definition gcs1 :: GCS where
  "gcs1 = gcs0\<lparr>locks := [''example.com'' \<mapsto> 7]\<rparr>"

definition gcs_certs :: GCS where
  "gcs_certs = gcs0\<lparr>prefix := ''certs/''\<rparr>"

definition gcs_root :: GCS where
  "gcs_root = gcs0\<lparr>prefix := ''/''\<rparr>"

definition gcs_offline :: GCS where
  "gcs_offline = gcs0\<lparr>bucket := ''offline''\<rparr>"

text \<open>
  A world with three objects: one with both headers, one with no header, one with a
  timestamp and no length.
\<close>

definition mem_world1 :: mem_world where
  "mem_world1 =
     \<lparr>objects =
        [(''bucket'', ''cert.pem'') \<mapsto>
           ([1, 2, 3], [''last-modified'' \<mapsto> ''Mon, 02 Jan 2006 15:04:05 GMT'',
                        ''content-length'' \<mapsto> ''3'']),
         (''bucket'', ''bare'') \<mapsto> ([], Map.empty),
         (''bucket'', ''undated'') \<mapsto>
           ([], [''last-modified'' \<mapsto> ''Mon, 02 Jan 2006 15:04:05 GMT''])],
      mutexes = 0, held = []\<rparr>"

definition proc1 :: "mem_world proc" where
  "proc1 = \<lparr>world = mem_world1, trace = []\<rparr>"

section \<open>Properties\<close>

subsection \<open>Wrapped errors\<close>

text \<open>
  \<^verbatim>\<open>Error.Wrap\<close> of an error is an error of the class \<open>certstorage\<close>, and the error it
  was given is still in its chain.
\<close>

lemma chain_Is_refl: "chain_Is e e"
  by (cases e) simp_all

lemma chain_Is_Class_wrap: "chain_Is (Class_wrap e) e"
  by (cases e) (simp_all add: Class_wrap_def chain_Is_refl)

lemma Class_wrap_in_class: "\<exists>e'. Class_wrap e = Class ''certstorage'' e'"
  by (cases e) (simp_all add: Class_wrap_def Error_def)

subsection \<open>The paths of Lock and Unlock\<close>

text \<open>
  Each path through \<open>Lock\<close> and \<open>Unlock\<close>, with the result, the receiver, the world and the
  events it appends to the trace.
\<close>

lemma mu_False_id: "\<not> mu g \<Longrightarrow> g\<lparr>mu := False\<rparr> = g"
  by simp

lemma Lock_blocked: "mu g \<Longrightarrow> Lock env n g p = Inl Blocked"
  by (simp add: Lock_def mu_Lock_def)

lemma Unlock_blocked: "mu g \<Longrightarrow> Unlock env n g p = Inl Blocked"
  by (simp add: Unlock_def mu_Lock_def)

lemma Lock_miss_ok:
  assumes "\<not> mu g" and "locks g n = None"
    and "gcslock_NewMutex env (Lock_options g n) (world p) = (Inr m, w1)"
    and "Mutex_Lock env m w1 = (r, w2)"
  shows "Lock env n g p =
    Inr (Error_Wrap r, g\<lparr>locks := (locks g)(n \<mapsto> m)\<rparr>,
         p\<lparr>world := w2, trace := trace p @ [MuLock, Ext (CallNewMutex (Lock_options g n)), MuUnlock,
            MonEvent ''certstorage_lockcache'' [(''hit'', ''false'')], Ext (CallMutexLock m)]\<rparr>)"
  using assms
  by (simp add: Lock_def mu_Lock_def mu_Unlock_def ext_def log_def Lock_acquire_def
      Lock_options_def strconv_FormatBool_def)

lemma Lock_miss_fail:
  assumes "\<not> mu g" and "locks g n = None"
    and "gcslock_NewMutex env (Lock_options g n) (world p) = (Inl e, w1)"
  shows "Lock env n g p =
    Inr (Some (Class_wrap e), g,
         p\<lparr>world := w1, trace := trace p @ [MuLock, Ext (CallNewMutex (Lock_options g n)), MuUnlock]\<rparr>)"
  using assms
  by (simp add: Lock_def mu_Lock_def mu_Unlock_def ext_def log_def Lock_options_def)

lemma Lock_hit:
  assumes "\<not> mu g" and "locks g n = Some m"
    and "Mutex_Lock env m (world p) = (r, w1)"
  shows "Lock env n g p =
    Inr (Error_Wrap r, g,
         p\<lparr>world := w1, trace := trace p @ [MuLock, MuUnlock,
            MonEvent ''certstorage_lockcache'' [(''hit'', ''true'')], Ext (CallMutexLock m)]\<rparr>)"
  using assms
  by (simp add: Lock_def mu_Lock_def mu_Unlock_def ext_def log_def Lock_acquire_def
      strconv_FormatBool_def)

lemma Unlock_absent:
  assumes "\<not> mu g" and "locks g n = None"
  shows "Unlock env n g p =
    Inr (Some (Error_New (''mutex for '' @ n @ '' not exists'')), g,
         p\<lparr>trace := trace p @ [MuLock, MuUnlock, MonEvent ''certstorage_mutex_not_exists'' []]\<rparr>)"
  using assms
  by (simp add: Unlock_def mu_Lock_def mu_Unlock_def log_def)

lemma Unlock_present:
  assumes "\<not> mu g" and "locks g n = Some m"
    and "Mutex_Unlock env m (world p) = (r, w1)"
  shows "Unlock env n g p =
    Inr (Error_Wrap r, g,
         p\<lparr>world := w1, trace := trace p @ [MuLock, MuUnlock, Ext (CallMutexUnlock m)]\<rparr>)"
  using assms
  by (simp add: Unlock_def mu_Lock_def mu_Unlock_def ext_def log_def)

text \<open>Whatever the other packages answer, \<open>Lock\<close> returns with the section free, and keeps every entry.\<close>

lemma Lock_returns:
  assumes "\<not> mu g"
  shows "\<exists>r g' p'. Lock env n g p = Inr (r, g', p') \<and> \<not> mu g'
           \<and> (\<forall>k m. locks g k = Some m \<longrightarrow> locks g' k = Some m)"
proof (cases "locks g n")
  case None
  obtain x w1 where nm: "gcslock_NewMutex env (Lock_options g n) (world p) = (x, w1)"
    by (cases "gcslock_NewMutex env (Lock_options g n) (world p)")
  show ?thesis
  proof (cases x)
    case (Inl e)
    with nm None assms show ?thesis by (simp add: Lock_miss_fail)
  next
    case (Inr m)
    obtain r w2 where "Mutex_Lock env m w1 = (r, w2)" by (cases "Mutex_Lock env m w1")
    with Inr nm None assms show ?thesis by (auto simp add: Lock_miss_ok)
  qed
next
  case (Some m)
  obtain r w1 where "Mutex_Lock env m (world p) = (r, w1)" by (cases "Mutex_Lock env m (world p)")
  with Some assms show ?thesis by (simp add: Lock_hit)
qed

lemma Unlock_returns:
  assumes "\<not> mu g"
  shows "\<exists>r p'. Unlock env n g p = Inr (r, g, p')"
proof (cases "locks g n")
  case None
  with assms show ?thesis by (simp add: Unlock_absent)
next
  case (Some m)
  obtain r w1 where "Mutex_Unlock env m (world p) = (r, w1)" by (cases "Mutex_Unlock env m (world p)")
  with Some assms show ?thesis by (simp add: Unlock_present)
qed

lemma step_returns:
  assumes "\<not> mu g"
  shows "\<exists>g' p'. step env x (g, p) = Inr (g', p') \<and> \<not> mu g'
           \<and> (\<forall>k m. locks g k = Some m \<longrightarrow> locks g' k = Some m)"
proof (cases x)
  case (OpLock n)
  from Lock_returns [OF assms, of env n p] obtain r g' p' where
    "Lock env n g p = Inr (r, g', p')" "\<not> mu g'" "\<forall>k m. locks g k = Some m \<longrightarrow> locks g' k = Some m"
    by blast
  with OpLock show ?thesis by simp
next
  case (OpUnlock n)
  from Unlock_returns [OF assms, of env n p] obtain r p' where
    "Unlock env n g p = Inr (r, g, p')" by blast
  with OpUnlock assms show ?thesis by simp
qed (use assms in simp_all)

lemma run_returns:
  assumes "\<not> mu g"
  shows "\<exists>g' p'. run env xs (g, p) = Inr (g', p') \<and> \<not> mu g'
           \<and> (\<forall>k m. locks g k = Some m \<longrightarrow> locks g' k = Some m)"
  using assms
proof (induction xs arbitrary: g p)
  case Nil
  then show ?case by simp
next
  case (Cons x xs)
  from step_returns [OF Cons.prems, of env x p] obtain g1 p1 where
    s: "step env x (g, p) = Inr (g1, p1)" "\<not> mu g1"
       "\<forall>k m. locks g k = Some m \<longrightarrow> locks g1 k = Some m"
    by blast
  from Cons.IH [OF s(2), of p1] obtain g2 p2 where
    r: "run env xs (g1, p1) = Inr (g2, p2)" "\<not> mu g2"
       "\<forall>k m. locks g1 k = Some m \<longrightarrow> locks g2 k = Some m"
    by blast
  from s r show ?case by simp
qed

lemma calls_append: "calls (xs @ ys) = calls xs @ calls ys"
  by (induction xs rule: calls.induct) simp_all

lemma Lock_miss_stores:
  assumes "\<not> mu g" and "locks g n = None"
    and "gcslock_NewMutex env (Lock_options g n) (world p) = (Inr m, w1)"
  shows "\<exists>r p'. Lock env n g p = Inr (r, g\<lparr>locks := (locks g)(n \<mapsto> m)\<rparr>, p')
           \<and> calls (trace p') = calls (trace p) @ [CallNewMutex (Lock_options g n), CallMutexLock m]"
proof -
  obtain r w2 where "Mutex_Lock env m w1 = (r, w2)" by (cases "Mutex_Lock env m w1")
  with assms show ?thesis by (simp add: Lock_miss_ok calls_append)
qed

lemma Lock_hit_reuses:
  assumes "\<not> mu g" and "locks g n = Some m"
  shows "\<exists>r p'. Lock env n g p = Inr (r, g, p')
           \<and> calls (trace p') = calls (trace p) @ [CallMutexLock m]"
proof -
  obtain r w1 where "Mutex_Lock env m (world p) = (r, w1)" by (cases "Mutex_Lock env m (world p)")
  with assms show ?thesis by (simp add: Lock_hit calls_append)
qed

subsection \<open>The lock handle cache\<close>

text \<open>
  Claim C1. The cache keeps at most one mutex per name. Called with the section free:
  a \<open>Lock\<close> of a name with no entry, whose mutex is constructed, stores that mutex under the
  name and calls the constructor once and then acquire on the new mutex; once a name has
  an entry, it is still there with the same mutex after any sequence of operations of the
  interface (none of which ends in a fault), and a \<open>Lock\<close> of the name after that sequence
  calls nothing but acquire on that mutex and leaves the receiver as it is; and a \<open>Lock\<close>
  whose constructor fails returns \<^verbatim>\<open>Error.Wrap\<close> of the constructor's error, which is an
  error of the class \<open>certstorage\<close> with the constructor's error in its chain, and leaves
  the cache as it was, with no entry for the name.
\<close>

theorem Lock_one_instance_per_name:
  assumes "\<not> mu g"
  shows
    "(\<forall>m w1. locks g n = None \<and> gcslock_NewMutex env (Lock_options g n) (world p) = (Inr m, w1) \<longrightarrow>
        (\<exists>r p'. Lock env n g p = Inr (r, g\<lparr>locks := (locks g)(n \<mapsto> m)\<rparr>, p')
           \<and> calls (trace p') = calls (trace p) @ [CallNewMutex (Lock_options g n), CallMutexLock m]))
     \<and> (\<forall>m xs. locks g n = Some m \<longrightarrow>
        (\<exists>g' p'. run env xs (g, p) = Inr (g', p') \<and> locks g' n = Some m
           \<and> (\<exists>r p''. Lock env n g' p' = Inr (r, g', p'')
                \<and> calls (trace p'') = calls (trace p') @ [CallMutexLock m])))
     \<and> (\<forall>e w1. locks g n = None \<and> gcslock_NewMutex env (Lock_options g n) (world p) = (Inl e, w1) \<longrightarrow>
        (\<exists>g' p'. Lock env n g p = Inr (Some (Class_wrap e), g', p')
           \<and> (\<exists>e'. Class_wrap e = Class ''certstorage'' e') \<and> chain_Is (Class_wrap e) e
           \<and> locks g' = locks g \<and> locks g' n = None))"
proof (intro conjI allI impI)
  fix m w1
  assume "locks g n = None \<and> gcslock_NewMutex env (Lock_options g n) (world p) = (Inr m, w1)"
  with assms show "\<exists>r p'. Lock env n g p = Inr (r, g\<lparr>locks := (locks g)(n \<mapsto> m)\<rparr>, p')
      \<and> calls (trace p') = calls (trace p) @ [CallNewMutex (Lock_options g n), CallMutexLock m]"
    by (simp add: Lock_miss_stores)
next
  fix m xs
  assume hit: "locks g n = Some m"
  from run_returns [OF assms, of env xs p] obtain g' p' where
    r: "run env xs (g, p) = Inr (g', p')" "\<not> mu g'"
       "\<forall>k m. locks g k = Some m \<longrightarrow> locks g' k = Some m"
    by blast
  from r(3) hit have kept: "locks g' n = Some m" by simp
  from Lock_hit_reuses [OF r(2) kept, of env p'] r(1) kept
  show "\<exists>g' p'. run env xs (g, p) = Inr (g', p') \<and> locks g' n = Some m
      \<and> (\<exists>r p''. Lock env n g' p' = Inr (r, g', p'')
           \<and> calls (trace p'') = calls (trace p') @ [CallMutexLock m])"
    by simp
next
  fix e w1
  assume "locks g n = None \<and> gcslock_NewMutex env (Lock_options g n) (world p) = (Inl e, w1)"
  with assms show "\<exists>g' p'. Lock env n g p = Inr (Some (Class_wrap e), g', p')
      \<and> (\<exists>e'. Class_wrap e = Class ''certstorage'' e') \<and> chain_Is (Class_wrap e) e
      \<and> locks g' = locks g \<and> locks g' n = None"
    by (simp add: Lock_miss_fail Class_wrap_in_class chain_Is_Class_wrap)
qed

theorem Lock_one_instance_per_name_witness:
  "\<not> mu gcs0
   \<and> locks gcs0 ''example.com'' = None
   \<and> gcslock_NewMutex mem_env (Lock_options gcs0 ''example.com'') (world proc0)
       = (Inr 1, mem_world0\<lparr>mutexes := 1\<rparr>)
   \<and> (\<exists>r p'. Lock mem_env ''example.com'' gcs0 proc0
         = Inr (r, gcs0\<lparr>locks := (locks gcs0)(''example.com'' \<mapsto> 1)\<rparr>, p')
        \<and> calls (trace p') = calls (trace proc0)
             @ [CallNewMutex (Lock_options gcs0 ''example.com''), CallMutexLock 1])
   \<and> \<not> mu gcs1
   \<and> locks gcs1 ''example.com'' = Some 7
   \<and> (\<exists>g' p'. run mem_env [OpUnlock ''example.com'', OpLock ''other.org'', OpDelete ''example.com'']
                  (gcs1, proc0) = Inr (g', p')
        \<and> locks g' ''example.com'' = Some 7
        \<and> (\<exists>r p''. Lock mem_env ''example.com'' g' p' = Inr (r, g', p'')
             \<and> calls (trace p'') = calls (trace p') @ [CallMutexLock 7]))
   \<and> locks gcs0 [] = None
   \<and> gcslock_NewMutex mem_env (Lock_options gcs0 []) (world proc0)
       = (Inl (Msg ''name is empty''), mem_world0)
   \<and> (\<exists>g' p'. Lock mem_env [] gcs0 proc0
         = Inr (Some (Class ''certstorage'' (Msg ''name is empty'')), g', p')
        \<and> chain_Is (Class ''certstorage'' (Msg ''name is empty'')) (Msg ''name is empty'')
        \<and> locks g' = locks gcs0 \<and> locks g' [] = None)"
proof -
  have a: "\<not> mu gcs0" and b: "\<not> mu gcs1"
    by (simp_all add: gcs0_def gcs1_def)
  have c: "locks gcs0 ''example.com'' = None \<and>
      gcslock_NewMutex mem_env (Lock_options gcs0 ''example.com'') (world proc0)
        = (Inr 1, mem_world0\<lparr>mutexes := 1\<rparr>)"
    by (simp add: gcs0_def mem_env_def Lock_options_def proc0_def mem_world0_def)
  have d: "locks gcs1 ''example.com'' = Some 7"
    by (simp add: gcs1_def)
  have e: "locks gcs0 [] = None \<and>
      gcslock_NewMutex mem_env (Lock_options gcs0 []) (world proc0)
        = (Inl (Msg ''name is empty''), mem_world0)"
    by (simp add: gcs0_def mem_env_def Lock_options_def proc0_def)
  have cw: "Class_wrap (Msg ''name is empty'') = Class ''certstorage'' (Msg ''name is empty'')"
    by (simp add: Class_wrap_def Error_def)
  from Lock_one_instance_per_name [OF a, of "[]" mem_env proc0,
      THEN conjunct2, THEN conjunct2, rule_format, OF e]
  have f: "\<exists>g' p'. Lock mem_env [] gcs0 proc0
         = Inr (Some (Class ''certstorage'' (Msg ''name is empty'')), g', p')
        \<and> chain_Is (Class ''certstorage'' (Msg ''name is empty'')) (Msg ''name is empty'')
        \<and> locks g' = locks gcs0 \<and> locks g' [] = None"
    by (simp only: cw) blast
  from Lock_one_instance_per_name [OF a, of "''example.com''" mem_env proc0] c
    Lock_one_instance_per_name [OF b, of "''example.com''" mem_env proc0] d
    e f a b
  show ?thesis by blast
qed

subsection \<open>The exclusive section\<close>

text \<open>
  Called with the section free, \<open>Lock\<close> and \<open>Unlock\<close> return, with the section free again,
  whatever the other packages answer. Of the calls to other packages, \<open>Lock\<close> makes the
  construction of the mutex inside the section, on a miss, and nothing else; \<open>Unlock\<close> makes
  none inside it.
\<close>

lemma Lock_section:
  assumes "\<not> mu g"
  shows "\<exists>r g' p' evs. Lock env n g p = Inr (r, g', p') \<and> \<not> mu g' \<and> trace p' = trace p @ evs
           \<and> \<not> held_after False evs
           \<and> calls_while_held False evs
               = (if locks g n = None then [CallNewMutex (Lock_options g n)] else [])"
proof (cases "locks g n")
  case None
  obtain x w1 where nm: "gcslock_NewMutex env (Lock_options g n) (world p) = (x, w1)"
    by (cases "gcslock_NewMutex env (Lock_options g n) (world p)")
  show ?thesis
  proof (cases x)
    case (Inl e)
    with nm None assms show ?thesis by (simp add: Lock_miss_fail)
  next
    case (Inr m)
    obtain r w2 where "Mutex_Lock env m w1 = (r, w2)" by (cases "Mutex_Lock env m w1")
    with Inr nm None assms show ?thesis by (simp add: Lock_miss_ok)
  qed
next
  case (Some m)
  obtain r w1 where "Mutex_Lock env m (world p) = (r, w1)" by (cases "Mutex_Lock env m (world p)")
  with Some assms show ?thesis by (simp add: Lock_hit)
qed

lemma Unlock_section:
  assumes "\<not> mu g"
  shows "\<exists>r g' p' evs. Unlock env n g p = Inr (r, g', p') \<and> \<not> mu g' \<and> trace p' = trace p @ evs
           \<and> \<not> held_after False evs \<and> calls_while_held False evs = []"
proof (cases "locks g n")
  case None
  with assms show ?thesis by (simp add: Unlock_absent)
next
  case (Some m)
  obtain r w1 where "Mutex_Unlock env m (world p) = (r, w1)" by (cases "Mutex_Unlock env m (world p)")
  with Some assms show ?thesis by (simp add: Unlock_present)
qed

lemma step_enters: "\<not> mu g \<Longrightarrow> \<exists>s. step env x (g, p) = Inr s"
  using step_returns [of g env x p] by blast

text \<open>
  Claim C9. Every return path of \<open>Lock\<close> and \<open>Unlock\<close> releases the section: called with
  the section free, either method returns (it ends in no fault), the section is free in the
  receiver it returns and at the end of the events it appended, and any operation of the
  interface, on any name, that is called next enters and returns as well.
\<close>

theorem Lock_Unlock_release_section:
  assumes "\<not> mu g"
  shows
    "(\<exists>r g' p' evs. Lock env n g p = Inr (r, g', p') \<and> \<not> mu g' \<and> trace p' = trace p @ evs
        \<and> \<not> held_after False evs \<and> (\<forall>x. \<exists>s. step env x (g', p') = Inr s))
     \<and> (\<exists>r g' p' evs. Unlock env n g p = Inr (r, g', p') \<and> \<not> mu g' \<and> trace p' = trace p @ evs
        \<and> \<not> held_after False evs \<and> (\<forall>x. \<exists>s. step env x (g', p') = Inr s))"
proof
  from Lock_section [OF assms, of env n p] obtain r g' p' evs where
    l: "Lock env n g p = Inr (r, g', p')" "\<not> mu g'" "trace p' = trace p @ evs"
       "\<not> held_after False evs"
    by blast
  from step_enters [OF l(2)] have "\<forall>x. \<exists>s. step env x (g', p') = Inr s" by blast
  with l show "\<exists>r g' p' evs. Lock env n g p = Inr (r, g', p') \<and> \<not> mu g' \<and> trace p' = trace p @ evs
        \<and> \<not> held_after False evs \<and> (\<forall>x. \<exists>s. step env x (g', p') = Inr s)"
    by blast
next
  from Unlock_section [OF assms, of env n p] obtain r g' p' evs where
    u: "Unlock env n g p = Inr (r, g', p')" "\<not> mu g'" "trace p' = trace p @ evs"
       "\<not> held_after False evs"
    by blast
  from step_enters [OF u(2)] have "\<forall>x. \<exists>s. step env x (g', p') = Inr s" by blast
  with u show "\<exists>r g' p' evs. Unlock env n g p = Inr (r, g', p') \<and> \<not> mu g' \<and> trace p' = trace p @ evs
        \<and> \<not> held_after False evs \<and> (\<forall>x. \<exists>s. step env x (g', p') = Inr s)"
    by blast
qed

theorem Lock_Unlock_release_section_witness:
  "\<not> mu gcs0
   \<and> (\<exists>r g' p' evs. Lock mem_env [] gcs0 proc0 = Inr (r, g', p') \<and> \<not> mu g'
        \<and> trace p' = trace proc0 @ evs \<and> \<not> held_after False evs
        \<and> (\<forall>x. \<exists>s. step mem_env x (g', p') = Inr s))
   \<and> (\<exists>r g' p' evs. Unlock mem_env [] gcs0 proc0 = Inr (r, g', p') \<and> \<not> mu g'
        \<and> trace p' = trace proc0 @ evs \<and> \<not> held_after False evs
        \<and> (\<forall>x. \<exists>s. step mem_env x (g', p') = Inr s))"
proof -
  have "\<not> mu gcs0" by (simp add: gcs0_def)
  from this Lock_Unlock_release_section [OF this, of mem_env "[]" proc0]
  show ?thesis by simp
qed

text \<open>
  Claim C2, as amended. \<open>Lock\<close> never calls acquire on a mutex while the section is held:
  the section is released before. The calls made while the section is held are exactly
  the construction of the mutex when the name has no entry, and none on a hit.
\<close>

theorem Lock_acquires_outside_section:
  assumes "\<not> mu g"
  shows "\<exists>r g' p' evs. Lock env n g p = Inr (r, g', p') \<and> trace p' = trace p @ evs
           \<and> (\<forall>m. CallMutexLock m \<notin> set (calls_while_held False evs))
           \<and> calls_while_held False evs
               = (if locks g n = None then [CallNewMutex (Lock_options g n)] else [])"
proof -
  from Lock_section [OF assms, of env n p] obtain r g' p' evs where
    l: "Lock env n g p = Inr (r, g', p')" "trace p' = trace p @ evs"
       "calls_while_held False evs = (if locks g n = None then [CallNewMutex (Lock_options g n)] else [])"
    by blast
  from l(3) have "\<forall>m. CallMutexLock m \<notin> set (calls_while_held False evs)" by simp
  with l show ?thesis by blast
qed

theorem Lock_acquires_outside_section_witness:
  "\<not> mu gcs1
   \<and> (\<exists>r g' p' evs. Lock mem_env ''example.com'' gcs1 proc0 = Inr (r, g', p')
        \<and> trace p' = trace proc0 @ evs
        \<and> (\<forall>m. CallMutexLock m \<notin> set (calls_while_held False evs))
        \<and> calls_while_held False evs = [])
   \<and> \<not> mu gcs0
   \<and> (\<exists>r g' p' evs. Lock mem_env ''example.com'' gcs0 proc0 = Inr (r, g', p')
        \<and> trace p' = trace proc0 @ evs
        \<and> (\<forall>m. CallMutexLock m \<notin> set (calls_while_held False evs))
        \<and> calls_while_held False evs = [CallNewMutex (Lock_options gcs0 ''example.com'')])"
proof -
  have a: "\<not> mu gcs1" and b: "locks gcs1 ''example.com'' = Some 7"
    and c: "\<not> mu gcs0" and d: "locks gcs0 ''example.com'' = None"
    by (simp_all add: gcs0_def gcs1_def)
  from Lock_acquires_outside_section [OF a, of mem_env "''example.com''" proc0] b
  have hit: "\<exists>r g' p' evs. Lock mem_env ''example.com'' gcs1 proc0 = Inr (r, g', p')
        \<and> trace p' = trace proc0 @ evs
        \<and> (\<forall>m. CallMutexLock m \<notin> set (calls_while_held False evs))
        \<and> calls_while_held False evs = []"
    by simp
  from Lock_acquires_outside_section [OF c, of mem_env "''example.com''" proc0] d
  have miss: "\<exists>r g' p' evs. Lock mem_env ''example.com'' gcs0 proc0 = Inr (r, g', p')
        \<and> trace p' = trace proc0 @ evs
        \<and> (\<forall>m. CallMutexLock m \<notin> set (calls_while_held False evs))
        \<and> calls_while_held False evs = [CallNewMutex (Lock_options gcs0 ''example.com'')]"
    by simp
  from a c hit miss show ?thesis by simp
qed

text \<open>
  Claim C2 as it is stated also excludes the construction of the mutex from the section.
  On a miss, \<^verbatim>\<open>gcslock.NewMutex\<close> is called between \<^verbatim>\<open>gcs.mu.Lock()\<close> and \<^verbatim>\<open>gcs.mu.Unlock()\<close>:
  the trace of a first \<open>Lock\<close> and the calls it makes while the section is held.
\<close>

theorem Lock_constructs_inside_section_counterexample:
  "map_sum id (trace \<circ> snd \<circ> snd) (Lock mem_env ''example.com'' gcs0 proc0)
     = Inr [MuLock,
            Ext (CallNewMutex \<lparr>Name = ''example.com'', Bucket = ''bucket'',
                   Logger = ''certmagic.distributed lock/example.com'', Client = 1\<rparr>),
            MuUnlock,
            MonEvent ''certstorage_lockcache'' [(''hit'', ''false'')],
            Ext (CallMutexLock 1)]
   \<and> calls_while_held False
        [MuLock,
         Ext (CallNewMutex \<lparr>Name = ''example.com'', Bucket = ''bucket'',
                Logger = ''certmagic.distributed lock/example.com'', Client = 1\<rparr>),
         MuUnlock,
         MonEvent ''certstorage_lockcache'' [(''hit'', ''false'')],
         Ext (CallMutexLock 1)]
     = [CallNewMutex \<lparr>Name = ''example.com'', Bucket = ''bucket'',
          Logger = ''certmagic.distributed lock/example.com'', Client = 1\<rparr>]"
  by (simp add: Lock_def mu_Lock_def mu_Unlock_def ext_def log_def Lock_acquire_def
      Lock_options_def strconv_FormatBool_def logger_Named_def gcs0_def proc0_def
      mem_env_def mem_world0_def)

text \<open>
  Claim C4. Called with the section free, \<open>Unlock\<close> of a name with no entry returns the
  error \<open>mutex for <name> not exists\<close> of the package's class, makes no call to
  another package (so no release), and leaves the receiver and the world as they were; with
  an entry, it calls release on the cached mutex, after the section, and returns the
  wrapped error of release (nil when release succeeds).
\<close>

theorem Unlock_needs_cached_lock:
  assumes "\<not> mu g"
  shows
    "(locks g n = None \<longrightarrow>
        Unlock env n g p
          = Inr (Some (Error_New (''mutex for '' @ n @ '' not exists'')), g,
                 p\<lparr>trace := trace p @ [MuLock, MuUnlock, MonEvent ''certstorage_mutex_not_exists'' []]\<rparr>)
        \<and> calls [MuLock, MuUnlock, MonEvent ''certstorage_mutex_not_exists'' []] = [])
     \<and> (\<forall>m r w1. locks g n = Some m \<and> Mutex_Unlock env m (world p) = (r, w1) \<longrightarrow>
        Unlock env n g p
          = Inr (Error_Wrap r, g,
                 p\<lparr>world := w1, trace := trace p @ [MuLock, MuUnlock, Ext (CallMutexUnlock m)]\<rparr>))"
  using assms by (simp add: Unlock_absent Unlock_present)

theorem Unlock_needs_cached_lock_witness:
  "\<not> mu gcs0 \<and> locks gcs0 ''example.com'' = None
   \<and> Unlock mem_env ''example.com'' gcs0 proc0
       = Inr (Some (Class ''certstorage'' (Msg ''mutex for example.com not exists'')), gcs0,
              proc0\<lparr>trace := [MuLock, MuUnlock, MonEvent ''certstorage_mutex_not_exists'' []]\<rparr>)
   \<and> \<not> mu gcs1 \<and> locks gcs1 ''example.com'' = Some 7
   \<and> Mutex_Unlock mem_env 7 (world proc0) = (Some (Msg ''lock is not held''), mem_world0)
   \<and> Unlock mem_env ''example.com'' gcs1 proc0
       = Inr (Some (Class ''certstorage'' (Msg ''lock is not held'')), gcs1,
              proc0\<lparr>trace := [MuLock, MuUnlock, Ext (CallMutexUnlock 7)]\<rparr>)"
proof -
  have a: "\<not> mu gcs0" "locks gcs0 ''example.com'' = None"
    and b: "\<not> mu gcs1" "locks gcs1 ''example.com'' = Some 7"
    by (simp_all add: gcs0_def gcs1_def)
  have c: "Mutex_Unlock mem_env 7 (world proc0) = (Some (Msg ''lock is not held''), mem_world0)"
    by (simp add: mem_env_def proc0_def mem_world0_def)
  have d: "proc0\<lparr>world := mem_world0\<rparr> = proc0" "trace proc0 = []"
    by (simp_all add: proc0_def)
  from a b c d
    Unlock_needs_cached_lock [OF a(1), of "''example.com''" mem_env proc0]
    Unlock_needs_cached_lock [OF b(1), of "''example.com''" mem_env proc0]
  show ?thesis
    by (simp add: Error_New_def Error_def Error_Wrap_def Class_wrap_def)
qed

subsection \<open>The storage methods\<close>

text \<open>
  The result of each storage method in terms of what the client answers.
\<close>

lemma Class_wrap_ErrNotExist: "Class_wrap ErrNotExist = Class Error ErrNotExist"
  by (simp add: Class_wrap_def)

lemma Load_download_error:
  assumes "client_Download env (client g) (bucket g) (prefix g @ k) (world p) = (Inl e, w1)"
  shows "Load env k g p =
     (([], if chain_Is e ErrNotFound then Some (Class Error ErrNotExist) else Some (Class_wrap e)),
      p\<lparr>world := w1, trace := trace p @ [Ext (CallDownload (bucket g) (prefix g @ k))]\<rparr>)"
  using assms
  by (simp add: Load_def ext_def log_def errs_Is_def Error_Wrap_def Class_wrap_ErrNotExist)

lemma Load_download_ok:
  assumes "client_Download env (client g) (bucket g) (prefix g @ k) (world p) = (Inr rc, w1)"
  shows "Load env k g p =
     ((rc_bytes rc, Error_Wrap (errs_Combine (rc_read_err rc) (rc_close_err rc))),
      p\<lparr>world := w1, trace := trace p @ [Ext (CallDownload (bucket g) (prefix g @ k))]\<rparr>)"
  using assms by (simp add: Load_def ext_def log_def)

lemma Store_result:
  assumes "client_Upload env (client g) (bucket g) (prefix g @ k) v (world p) = (r, w1)"
  shows "Store env k v g p =
     (Error_Wrap r,
      p\<lparr>world := w1, trace := trace p @ [Ext (CallUpload (bucket g) (prefix g @ k) v)]\<rparr>)"
  using assms by (simp add: Store_def ext_def log_def)

lemma Delete_error:
  assumes "client_Delete env (client g) (bucket g) (prefix g @ k) (world p) = (Some e, w1)"
  shows "Delete env k g p =
     (if chain_Is e ErrNotFound then Some (Class Error ErrNotExist) else Some (Class_wrap e),
      p\<lparr>world := w1, trace := trace p @ [Ext (CallDelete (bucket g) (prefix g @ k))]\<rparr>)"
  using assms
  by (simp add: Delete_def ext_def log_def errs_Is_def Error_Wrap_def Class_wrap_ErrNotExist)

lemma Stat_error:
  assumes "client_Stat env (client g) (bucket g) (prefix g @ k) (world p) = (Inl e, w1)"
  shows "Stat env k g p =
     ((KeyInfo_zero,
       if chain_Is e ErrNotFound then Some (Class Error ErrNotExist) else Some (Class_wrap e)),
      p\<lparr>world := w1, trace := trace p @ [Ext (CallStat (bucket g) (prefix g @ k))]\<rparr>)"
  using assms
  by (simp add: Stat_def ext_def log_def errs_Is_def Error_Wrap_def Class_wrap_ErrNotExist)

lemma Stat_headers:
  assumes "client_Stat env (client g) (bucket g) (prefix g @ k) (world p) = (Inr h, w1)"
    and "time_Parse env time_RFC1123 (header_Get h ''last-modified'') = (t, terr)"
    and "strconv_ParseInt env (header_Get h ''content-length'') 10 64 = (n, nerr)"
  shows "fst (Stat env k g p) =
     (if terr \<noteq> None
      then (\<lparr>Key = prefix g @ k, Modified = t, Size = 0, IsTerminal = True\<rparr>, Error_Wrap terr)
      else (\<lparr>Key = prefix g @ k, Modified = t, Size = n, IsTerminal = True\<rparr>, Error_Wrap nerr))"
  using assms
  by (cases nerr) (auto simp add: Stat_def ext_def log_def KeyInfo_zero_def Error_Wrap_def Let_def)

lemma Error_Wrap_None: "(Error_Wrap r = None) = (r = None)"
  by (cases r) (simp_all add: Error_Wrap_def)

text \<open>
  Claim C3. When the client fails with an error that has \<^verbatim>\<open>gcsops.ErrNotFound\<close> in its
  chain, \<open>Load\<close>, \<open>Delete\<close> and \<open>Stat\<close> return one and the same error, \<^verbatim>\<open>fs.ErrNotExist\<close>
  wrapped in the package's class, and not the error of the client; any other error of the
  client is returned wrapped in the package's class, with the error of the client in
  its chain.
\<close>

theorem not_found_normalized:
  "(\<forall>e w1. client_Download env (client g) (bucket g) (prefix g @ k) (world p) = (Inl e, w1) \<longrightarrow>
      snd (fst (Load env k g p))
        = (if chain_Is e ErrNotFound then Some (Class Error ErrNotExist) else Some (Class_wrap e)))
   \<and> (\<forall>e w1. client_Delete env (client g) (bucket g) (prefix g @ k) (world p) = (Some e, w1) \<longrightarrow>
      fst (Delete env k g p)
        = (if chain_Is e ErrNotFound then Some (Class Error ErrNotExist) else Some (Class_wrap e)))
   \<and> (\<forall>e w1. client_Stat env (client g) (bucket g) (prefix g @ k) (world p) = (Inl e, w1) \<longrightarrow>
      snd (fst (Stat env k g p))
        = (if chain_Is e ErrNotFound then Some (Class Error ErrNotExist) else Some (Class_wrap e)))
   \<and> Error_Wrap (Some ErrNotExist) = Some (Class Error ErrNotExist)
   \<and> (\<forall>e. chain_Is (Class_wrap e) e)"
  by (simp add: Load_download_error Delete_error Stat_error chain_Is_Class_wrap
      Error_Wrap_def Class_wrap_ErrNotExist)

theorem not_found_normalized_witness:
  "client_Download mem_env (client gcs0) (bucket gcs0) (prefix gcs0 @ ''missing'') (world proc0)
     = (Inl (Class ''gcsops'' ErrNotFound), mem_world0)
   \<and> snd (fst (Load mem_env ''missing'' gcs0 proc0)) = Some (Class ''certstorage'' ErrNotExist)
   \<and> client_Delete mem_env (client gcs0) (bucket gcs0) (prefix gcs0 @ ''missing'') (world proc0)
     = (Some (Class ''gcsops'' ErrNotFound), mem_world0)
   \<and> fst (Delete mem_env ''missing'' gcs0 proc0) = Some (Class ''certstorage'' ErrNotExist)
   \<and> client_Stat mem_env (client gcs0) (bucket gcs0) (prefix gcs0 @ ''missing'') (world proc0)
     = (Inl (Class ''gcsops'' ErrNotFound), mem_world0)
   \<and> snd (fst (Stat mem_env ''missing'' gcs0 proc0)) = Some (Class ''certstorage'' ErrNotExist)
   \<and> client_Download mem_env (client gcs_offline) (bucket gcs_offline) (prefix gcs_offline @ ''k'')
       (world proc0) = (Inl (Msg ''connection refused''), mem_world0)
   \<and> snd (fst (Load mem_env ''k'' gcs_offline proc0))
     = Some (Class ''certstorage'' (Msg ''connection refused''))
   \<and> client_Delete mem_env (client gcs_offline) (bucket gcs_offline) (prefix gcs_offline @ ''k'')
       (world proc0) = (Some (Msg ''connection refused''), mem_world0)
   \<and> fst (Delete mem_env ''k'' gcs_offline proc0)
     = Some (Class ''certstorage'' (Msg ''connection refused''))
   \<and> client_Stat mem_env (client gcs_offline) (bucket gcs_offline) (prefix gcs_offline @ ''k'')
       (world proc0) = (Inl (Msg ''connection refused''), mem_world0)
   \<and> snd (fst (Stat mem_env ''k'' gcs_offline proc0))
     = Some (Class ''certstorage'' (Msg ''connection refused''))"
proof -
  have a: "client_Download mem_env (client gcs0) (bucket gcs0) (prefix gcs0 @ ''missing'') (world proc0)
       = (Inl (Class ''gcsops'' ErrNotFound), mem_world0)"
    "client_Delete mem_env (client gcs0) (bucket gcs0) (prefix gcs0 @ ''missing'') (world proc0)
       = (Some (Class ''gcsops'' ErrNotFound), mem_world0)"
    "client_Stat mem_env (client gcs0) (bucket gcs0) (prefix gcs0 @ ''missing'') (world proc0)
       = (Inl (Class ''gcsops'' ErrNotFound), mem_world0)"
    by (simp_all add: mem_env_def gcs0_def proc0_def mem_world0_def)
  have b: "client_Download mem_env (client gcs_offline) (bucket gcs_offline) (prefix gcs_offline @ ''k'')
       (world proc0) = (Inl (Msg ''connection refused''), mem_world0)"
    "client_Delete mem_env (client gcs_offline) (bucket gcs_offline) (prefix gcs_offline @ ''k'')
       (world proc0) = (Some (Msg ''connection refused''), mem_world0)"
    "client_Stat mem_env (client gcs_offline) (bucket gcs_offline) (prefix gcs_offline @ ''k'')
       (world proc0) = (Inl (Msg ''connection refused''), mem_world0)"
    by (simp_all add: mem_env_def gcs_offline_def gcs0_def proc0_def)
  from a b
    not_found_normalized [of mem_env gcs0 "''missing''" proc0]
    not_found_normalized [of mem_env gcs_offline "''k''" proc0]
  show ?thesis
    by (simp add: Class_wrap_def Error_def)
qed

text \<open>
  Claim C6. If the upload that \<open>Store\<close> makes for a key succeeds, and a download of the
  same object in the world the upload left returns a stream that yields the uploaded
  bytes and is read and closed without error (the store persists uploads), then \<open>Store\<close>
  returns nil and the \<open>Load\<close> of that key right after returns exactly the payload and nil.
\<close>

theorem Store_Load_roundtrip:
  assumes "client_Upload env (client g) (bucket g) (prefix g @ k) v (world p) = (None, w1)"
    and "client_Download env (client g) (bucket g) (prefix g @ k) w1 = (Inr rc, w2)"
    and "rc_bytes rc = v" and "rc_read_err rc = None" and "rc_close_err rc = None"
  shows "\<exists>p1 p2. Store env k v g p = (None, p1) \<and> Load env k g p1 = ((v, None), p2)"
proof -
  let ?p1 = "p\<lparr>world := w1, trace := trace p @ [Ext (CallUpload (bucket g) (prefix g @ k) v)]\<rparr>"
  from assms(1) have s: "Store env k v g p = (None, ?p1)"
    by (simp add: Store_result Error_Wrap_def)
  from assms(2) have "client_Download env (client g) (bucket g) (prefix g @ k) (world ?p1) = (Inr rc, w2)"
    by simp
  from Load_download_ok [OF this] assms(3-5) have "\<exists>p2. Load env k g ?p1 = ((v, None), p2)"
    by (simp add: errs_Combine_def Error_Wrap_def)
  with s show ?thesis by blast
qed

theorem Store_Load_roundtrip_witness:
  "client_Upload mem_env (client gcs0) (bucket gcs0) (prefix gcs0 @ ''cert.pem'') [1, 2, 3] (world proc0)
     = (None, mem_world0\<lparr>objects := [(''bucket'', ''cert.pem'') \<mapsto> ([1, 2, 3], Map.empty)]\<rparr>)
   \<and> client_Download mem_env (client gcs0) (bucket gcs0) (prefix gcs0 @ ''cert.pem'')
       (mem_world0\<lparr>objects := [(''bucket'', ''cert.pem'') \<mapsto> ([1, 2, 3], Map.empty)]\<rparr>)
     = (Inr (mem_reader [1, 2, 3]),
        mem_world0\<lparr>objects := [(''bucket'', ''cert.pem'') \<mapsto> ([1, 2, 3], Map.empty)]\<rparr>)
   \<and> rc_bytes (mem_reader [1, 2, 3]) = [1, 2, 3]
   \<and> rc_read_err (mem_reader [1, 2, 3]) = None
   \<and> rc_close_err (mem_reader [1, 2, 3]) = None
   \<and> (\<exists>p1 p2. Store mem_env ''cert.pem'' [1, 2, 3] gcs0 proc0 = (None, p1)
        \<and> Load mem_env ''cert.pem'' gcs0 p1 = (([1, 2, 3], None), p2))"
proof -
  have a: "client_Upload mem_env (client gcs0) (bucket gcs0) (prefix gcs0 @ ''cert.pem'') [1, 2, 3]
       (world proc0)
     = (None, mem_world0\<lparr>objects := [(''bucket'', ''cert.pem'') \<mapsto> ([1, 2, 3], Map.empty)]\<rparr>)"
    by (simp add: mem_env_def gcs0_def proc0_def mem_world0_def)
  have b: "client_Download mem_env (client gcs0) (bucket gcs0) (prefix gcs0 @ ''cert.pem'')
       (mem_world0\<lparr>objects := [(''bucket'', ''cert.pem'') \<mapsto> ([1, 2, 3], Map.empty)]\<rparr>)
     = (Inr (mem_reader [1, 2, 3]),
        mem_world0\<lparr>objects := [(''bucket'', ''cert.pem'') \<mapsto> ([1, 2, 3], Map.empty)]\<rparr>)"
    by (simp add: mem_env_def gcs0_def)
  have c: "rc_bytes (mem_reader [1, 2, 3]) = [1, 2, 3]"
    and d: "rc_read_err (mem_reader [1, 2, 3]) = None"
    and e: "rc_close_err (mem_reader [1, 2, 3]) = None"
    by (simp_all add: mem_reader_def)
  from a b c d e Store_Load_roundtrip [OF a b c d e] show ?thesis by blast
qed

text \<open>
  Claim C7. When the metadata probe succeeds, the \<open>Key\<close> that \<open>Stat\<close> returns is the prefix
  followed by the key and \<open>IsTerminal\<close> is true; when the header \<open>last-modified\<close> parses
  with the layout \<^verbatim>\<open>time.RFC1123\<close> and the header \<open>content-length\<close> parses as a 64-bit
  integer in base 10, \<open>Modified\<close> and \<open>Size\<close> are the parsed values and the error is nil;
  when either fails to parse, \<open>Stat\<close> returns the wrapped error of the parser, which is
  not nil.
\<close>

theorem Stat_metadata:
  assumes "client_Stat env (client g) (bucket g) (prefix g @ k) (world p) = (Inr h, w1)"
    and "time_Parse env time_RFC1123 (header_Get h ''last-modified'') = (t, terr)"
    and "strconv_ParseInt env (header_Get h ''content-length'') 10 64 = (n, nerr)"
  shows "Key (fst (fst (Stat env k g p))) = prefix g @ k
     \<and> IsTerminal (fst (fst (Stat env k g p)))
     \<and> (terr = None \<and> nerr = None \<longrightarrow>
          fst (Stat env k g p)
            = (\<lparr>Key = prefix g @ k, Modified = t, Size = n, IsTerminal = True\<rparr>, None))
     \<and> (terr \<noteq> None \<longrightarrow>
          snd (fst (Stat env k g p)) = Error_Wrap terr \<and> snd (fst (Stat env k g p)) \<noteq> None)
     \<and> (terr = None \<and> nerr \<noteq> None \<longrightarrow>
          snd (fst (Stat env k g p)) = Error_Wrap nerr \<and> snd (fst (Stat env k g p)) \<noteq> None)"
  by (simp add: Stat_headers [OF assms] Error_Wrap_None)


theorem Stat_metadata_witness:
  "client_Stat mem_env (client gcs0) (bucket gcs0) (prefix gcs0 @ ''cert.pem'') (world proc1)
     = (Inr [''last-modified'' \<mapsto> ''Mon, 02 Jan 2006 15:04:05 GMT'', ''content-length'' \<mapsto> ''3''],
        mem_world1)
   \<and> time_Parse mem_env time_RFC1123
        (header_Get [''last-modified'' \<mapsto> ''Mon, 02 Jan 2006 15:04:05 GMT'',
                     ''content-length'' \<mapsto> ''3''] ''last-modified'')
     = (1136214245, None)
   \<and> strconv_ParseInt mem_env
        (header_Get [''last-modified'' \<mapsto> ''Mon, 02 Jan 2006 15:04:05 GMT'',
                     ''content-length'' \<mapsto> ''3''] ''content-length'') 10 64
     = (3, None)
   \<and> fst (Stat mem_env ''cert.pem'' gcs0 proc1)
     = (\<lparr>Key = ''cert.pem'', Modified = 1136214245, Size = 3, IsTerminal = True\<rparr>, None)
   \<and> client_Stat mem_env (client gcs0) (bucket gcs0) (prefix gcs0 @ ''bare'') (world proc1)
     = (Inr Map.empty, mem_world1)
   \<and> time_Parse mem_env time_RFC1123 (header_Get Map.empty ''last-modified'')
     = (0, Some (Msg ''cannot parse time''))
   \<and> snd (fst (Stat mem_env ''bare'' gcs0 proc1))
     = Some (Class ''certstorage'' (Msg ''cannot parse time''))
   \<and> client_Stat mem_env (client gcs0) (bucket gcs0) (prefix gcs0 @ ''undated'') (world proc1)
     = (Inr [''last-modified'' \<mapsto> ''Mon, 02 Jan 2006 15:04:05 GMT''], mem_world1)
   \<and> strconv_ParseInt mem_env
        (header_Get [''last-modified'' \<mapsto> ''Mon, 02 Jan 2006 15:04:05 GMT''] ''content-length'') 10 64
     = (0, Some (Msg ''invalid syntax''))
   \<and> snd (fst (Stat mem_env ''undated'' gcs0 proc1))
     = Some (Class ''certstorage'' (Msg ''invalid syntax''))"
proof -
  let ?h = "[''last-modified'' \<mapsto> ''Mon, 02 Jan 2006 15:04:05 GMT'', ''content-length'' \<mapsto> ''3'']"
  let ?u = "[''last-modified'' \<mapsto> ''Mon, 02 Jan 2006 15:04:05 GMT'']"
  have s1: "client_Stat mem_env (client gcs0) (bucket gcs0) (prefix gcs0 @ ''cert.pem'') (world proc1)
      = (Inr ?h, mem_world1)"
    and s2: "client_Stat mem_env (client gcs0) (bucket gcs0) (prefix gcs0 @ ''bare'') (world proc1)
      = (Inr Map.empty, mem_world1)"
    and s3: "client_Stat mem_env (client gcs0) (bucket gcs0) (prefix gcs0 @ ''undated'') (world proc1)
      = (Inr ?u, mem_world1)"
    by (simp_all add: mem_env_def gcs0_def proc1_def mem_world1_def)
  have t1: "time_Parse mem_env time_RFC1123 (header_Get ?h ''last-modified'') = (1136214245, None)"
    and t2: "time_Parse mem_env time_RFC1123 (header_Get Map.empty ''last-modified'')
      = (0, Some (Msg ''cannot parse time''))"
    and t3: "time_Parse mem_env time_RFC1123 (header_Get ?u ''last-modified'') = (1136214245, None)"
    by (simp_all add: mem_env_def time_RFC1123_def header_Get_def)
  have n1: "strconv_ParseInt mem_env (header_Get ?h ''content-length'') 10 64 = (3, None)"
    and n2: "strconv_ParseInt mem_env (header_Get Map.empty ''content-length'') 10 64
      = (0, Some (Msg ''invalid syntax''))"
    and n3: "strconv_ParseInt mem_env (header_Get ?u ''content-length'') 10 64
      = (0, Some (Msg ''invalid syntax''))"
    by (simp_all add: mem_env_def header_Get_def)
  have p: "prefix gcs0 = []" by (simp add: gcs0_def)
  from s1 s2 s3 t1 t2 n1 n3
    Stat_metadata [OF s1 t1 n1] Stat_metadata [OF s2 t2 n2] Stat_metadata [OF s3 t3 n3]
  show ?thesis
    by (simp add: p Error_Wrap_def Class_wrap_def Error_def)
qed

subsection \<open>The constructor\<close>

text \<open>
  \<^verbatim>\<open>strings.Cut\<close> and \<^verbatim>\<open>strings.TrimSuffix\<close> on the separator, the three ways \<open>NewGCS\<close> ends,
  and the object that each storage method addresses.
\<close>

lemma Cut_no_sep: "CHR ''/'' \<notin> set s \<Longrightarrow> strings_Cut s ''/'' = (s, [], False)"
  by (induction s) (auto simp add: strings_HasPrefix_def)

lemma Cut_first_sep:
  "CHR ''/'' \<notin> set b \<Longrightarrow> strings_Cut (b @ CHR ''/'' # pre) ''/'' = (b, pre, True)"
  by (induction b) (auto simp add: strings_HasPrefix_def)

lemma Cut_found: "snd (snd (strings_Cut s ''/'')) = (CHR ''/'' \<in> set s)"
  by (induction s) (auto simp add: strings_HasPrefix_def split: prod.splits)

lemma HasSuffix_sep: "strings_HasSuffix s ''/'' = (s \<noteq> [] \<and> last s = CHR ''/'')"
proof (cases s rule: rev_cases)
  case Nil
  then show ?thesis by (simp add: strings_HasSuffix_def)
next
  case (snoc ys y)
  then show ?thesis by (auto simp add: strings_HasSuffix_def)
qed

lemma TrimSuffix_sep:
  "strings_TrimSuffix s ''/'' @ ''/'' = (if strings_HasSuffix s ''/'' then s else s @ ''/'')"
proof (cases s rule: rev_cases)
  case Nil
  then show ?thesis by (simp add: strings_TrimSuffix_def strings_HasSuffix_def)
next
  case (snoc ys y)
  then show ?thesis by (auto simp add: strings_TrimSuffix_def strings_HasSuffix_def)
qed

lemma trailing_seps_snoc:
  "trailing_seps (s @ [c]) = (if c = CHR ''/'' then Suc (trailing_seps s) else 0)"
  by (simp add: trailing_seps_def)

lemma trailing_seps_normalized:
  "trailing_seps (strings_TrimSuffix s ''/'' @ ''/'') = max 1 (trailing_seps s)"
proof (cases s rule: rev_cases)
  case Nil
  then show ?thesis by (simp add: strings_TrimSuffix_def strings_HasSuffix_def trailing_seps_def)
next
  case (snoc ys y)
  show ?thesis
  proof (cases "y = CHR ''/''")
    case True
    with snoc have "strings_TrimSuffix s ''/'' @ ''/'' = s"
      by (simp add: TrimSuffix_sep HasSuffix_sep)
    moreover from snoc True have "1 \<le> trailing_seps s"
      by (simp add: trailing_seps_snoc)
    ultimately show ?thesis by simp
  next
    case False
    with snoc have "strings_TrimSuffix s ''/'' @ ''/'' = s @ ''/''"
      by (simp add: TrimSuffix_sep HasSuffix_sep)
    moreover from snoc False have "trailing_seps s = 0"
      by (simp add: trailing_seps_snoc)
    ultimately show ?thesis
      using trailing_seps_snoc [of s "CHR ''/''"] by simp
  qed
qed

lemma NewGCS_client_fails:
  assumes "gcsops_NewClient env key (world p) = (Inl e, w1)"
  shows "NewGCS env lg key path p =
     (Inl (Class_wrap e), p\<lparr>world := w1, trace := trace p @ [Ext (CallNewClient key)]\<rparr>)"
  using assms by (cases "strings_Cut path ''/''") (simp add: NewGCS_def ext_def log_def Let_def)

lemma NewGCS_probe_fails:
  assumes "gcsops_NewClient env key (world p) = (Inr c, w1)"
    and "client_TestPermissions env c (fst (strings_Cut path ''/'')) w1 = (Some e, w2)"
  shows "NewGCS env lg key path p =
     (Inl (Class_wrap e),
      p\<lparr>world := w2,
        trace := trace p @ [Ext (CallNewClient key),
                            Ext (CallTestPermissions (fst (strings_Cut path ''/'')))]\<rparr>)"
  using assms by (cases "strings_Cut path ''/''") (simp add: NewGCS_def ext_def log_def Let_def)

lemma NewGCS_succeeds:
  assumes "gcsops_NewClient env key (world p) = (Inr c, w1)"
    and "client_TestPermissions env c (fst (strings_Cut path ''/'')) w1 = (None, w2)"
    and "strings_Cut path ''/'' = (b, pre, found)"
  shows "NewGCS env lg key path p =
     (Inr \<lparr>logger = lg, client = c, bucket = b,
           prefix = (if found then strings_TrimSuffix pre ''/'' @ ''/'' else pre),
           locks = Map.empty, mu = False\<rparr>,
      p\<lparr>world := w2,
        trace := trace p @ [Ext (CallNewClient key), Ext (CallTestPermissions b)]\<rparr>)"
  using assms by (simp add: NewGCS_def ext_def log_def Let_def)

text \<open>What a constructed \<open>GCS\<close> says about the calls that built it.\<close>

lemma NewGCS_Inr:
  assumes "NewGCS env lg key path p = (Inr g, p')"
    and "strings_Cut path ''/'' = (b, pre, found)"
  shows "\<exists>c w1. gcsops_NewClient env key (world p) = (Inr c, w1)
           \<and> client_TestPermissions env c b w1 = (None, world p')
           \<and> g = \<lparr>logger = lg, client = c, bucket = b,
                   prefix = (if found then strings_TrimSuffix pre ''/'' @ ''/'' else pre),
                   locks = Map.empty, mu = False\<rparr>
           \<and> trace p' = trace p @ [Ext (CallNewClient key), Ext (CallTestPermissions b)]"
proof -
  obtain x w1 where nc: "gcsops_NewClient env key (world p) = (x, w1)"
    by (cases "gcsops_NewClient env key (world p)")
  show ?thesis
  proof (cases x)
    case (Inl e)
    with nc assms show ?thesis by (simp add: NewGCS_client_fails)
  next
    case (Inr c)
    obtain r w2 where tp: "client_TestPermissions env c (fst (strings_Cut path ''/'')) w1 = (r, w2)"
      by (cases "client_TestPermissions env c (fst (strings_Cut path ''/'')) w1")
    show ?thesis
    proof (cases r)
      case None
      with nc Inr tp assms(2) NewGCS_succeeds [of env key p c w1 path w2 b pre found lg] assms(1)
      show ?thesis by auto
    next
      case (Some e)
      with nc Inr tp assms show ?thesis by (simp add: NewGCS_probe_fails)
    qed
  qed
qed

lemma NewGCS_prefix:
  assumes "fst (NewGCS env lg key path p) = Inr g"
    and "strings_Cut path ''/'' = (b, pre, found)"
  shows "bucket g = b \<and> prefix g = (if found then strings_TrimSuffix pre ''/'' @ ''/'' else pre)"
proof -
  obtain p' where "NewGCS env lg key path p = (Inr g, p')"
    using assms(1) by (cases "NewGCS env lg key path p") simp
  from NewGCS_Inr [OF this assms(2)] show ?thesis by auto
qed

lemma Store_call:
  "calls (trace (snd (Store env k v g q))) = calls (trace q) @ [CallUpload (bucket g) (prefix g @ k) v]"
  by (simp add: Store_def ext_def log_def calls_append Let_def split: prod.splits)

lemma Load_call:
  "calls (trace (snd (Load env k g q))) = calls (trace q) @ [CallDownload (bucket g) (prefix g @ k)]"
  by (simp add: Load_def ext_def log_def calls_append Let_def split: prod.splits sum.splits)

lemma Delete_call:
  "calls (trace (snd (Delete env k g q))) = calls (trace q) @ [CallDelete (bucket g) (prefix g @ k)]"
  by (simp add: Delete_def ext_def log_def calls_append Let_def split: prod.splits)

lemma Exists_call:
  "calls (trace (snd (Exists env k g q))) = calls (trace q) @ [CallStat (bucket g) (prefix g @ k)]"
  by (simp add: Exists_def ext_def log_def calls_append Let_def split: prod.splits sum.splits)

lemma List_call:
  "calls (trace (snd (List env k r g q))) = calls (trace q) @ [CallList (bucket g) (prefix g @ k) r]"
  by (simp add: List_def ext_def log_def calls_append Let_def split: prod.splits)

lemma Stat_call:
  "calls (trace (snd (Stat env k g q))) = calls (trace q) @ [CallStat (bucket g) (prefix g @ k)]"
  by (simp add: Stat_def ext_def log_def calls_append Let_def split: prod.splits sum.splits)

lemma Lock_options_Name: "Name (Lock_options g n) = prefix g @ n"
  by (simp add: Lock_options_def)

lemma mem_NewGCS:
  assumes "strings_Cut path ''/'' = (''bucket'', pre, found)"
  shows "fst (NewGCS mem_env ''certmagic'' [1] path proc0)
     = Inr (gcs0\<lparr>prefix := (if found then strings_TrimSuffix pre ''/'' @ ''/'' else pre)\<rparr>)"
proof -
  have b: "gcsops_NewClient mem_env [1] (world proc0) = (Inr 1, world proc0)"
    by (simp add: mem_env_def)
  have tp: "client_TestPermissions mem_env 1 (fst (strings_Cut path ''/'')) (world proc0)
      = (None, world proc0)"
    by (simp only: assms fst_conv) (simp add: mem_env_def)
  from NewGCS_succeeds [OF b tp assms, of "''certmagic''"] show ?thesis
    by (simp add: gcs0_def)
qed

text \<open>
  Claim C8. \<open>NewGCS\<close> fails with the wrapped error of \<^verbatim>\<open>gcsops.NewClient\<close> when the client
  cannot be built, and then makes no other call; it fails with the wrapped error of the
  permissions probe when the probe of the bucket fails, and then makes no call after the
  probe; in both cases it returns no \<open>GCS\<close> and leaves the world as the failing call left
  it. A \<open>GCS\<close> is returned only when the client was built and the probe of its bucket
  returned nil.
\<close>

theorem NewGCS_fails_fast:
  "(\<forall>e w1. gcsops_NewClient env key (world p) = (Inl e, w1) \<longrightarrow>
      NewGCS env lg key path p
        = (Inl (Class_wrap e), p\<lparr>world := w1, trace := trace p @ [Ext (CallNewClient key)]\<rparr>))
   \<and> (\<forall>c w1 e w2. gcsops_NewClient env key (world p) = (Inr c, w1)
        \<and> client_TestPermissions env c (fst (strings_Cut path ''/'')) w1 = (Some e, w2) \<longrightarrow>
      NewGCS env lg key path p
        = (Inl (Class_wrap e),
           p\<lparr>world := w2,
             trace := trace p @ [Ext (CallNewClient key),
                                 Ext (CallTestPermissions (fst (strings_Cut path ''/'')))]\<rparr>))
   \<and> (\<forall>g p'. NewGCS env lg key path p = (Inr g, p') \<longrightarrow>
        (\<exists>c w1. gcsops_NewClient env key (world p) = (Inr c, w1)
           \<and> client_TestPermissions env c (bucket g) w1 = (None, world p')
           \<and> client g = c \<and> bucket g = fst (strings_Cut path ''/'')
           \<and> trace p' = trace p @ [Ext (CallNewClient key), Ext (CallTestPermissions (bucket g))]))"
proof (intro conjI allI impI)
  fix e w1
  assume "gcsops_NewClient env key (world p) = (Inl e, w1)"
  then show "NewGCS env lg key path p
      = (Inl (Class_wrap e), p\<lparr>world := w1, trace := trace p @ [Ext (CallNewClient key)]\<rparr>)"
    by (rule NewGCS_client_fails)
next
  fix c w1 e w2
  assume "gcsops_NewClient env key (world p) = (Inr c, w1)
      \<and> client_TestPermissions env c (fst (strings_Cut path ''/'')) w1 = (Some e, w2)"
  then show "NewGCS env lg key path p
      = (Inl (Class_wrap e),
         p\<lparr>world := w2,
           trace := trace p @ [Ext (CallNewClient key),
                               Ext (CallTestPermissions (fst (strings_Cut path ''/'')))]\<rparr>)"
    by (simp add: NewGCS_probe_fails)
next
  fix g p'
  assume ok: "NewGCS env lg key path p = (Inr g, p')"
  obtain b pre found where cut: "strings_Cut path ''/'' = (b, pre, found)"
    by (cases "strings_Cut path ''/''")
  from NewGCS_Inr [OF ok cut] cut
  show "\<exists>c w1. gcsops_NewClient env key (world p) = (Inr c, w1)
      \<and> client_TestPermissions env c (bucket g) w1 = (None, world p')
      \<and> client g = c \<and> bucket g = fst (strings_Cut path ''/'')
      \<and> trace p' = trace p @ [Ext (CallNewClient key), Ext (CallTestPermissions (bucket g))]"
    by auto
qed

theorem NewGCS_fails_fast_witness:
  "gcsops_NewClient mem_env [] (world proc0) = (Inl (Msg ''missing credentials''), mem_world0)
   \<and> NewGCS mem_env ''certmagic'' [] ''bucket/certs'' proc0
       = (Inl (Class ''certstorage'' (Msg ''missing credentials'')),
          proc0\<lparr>trace := [Ext (CallNewClient [])]\<rparr>)
   \<and> gcsops_NewClient mem_env [1] (world proc0) = (Inr 1, mem_world0)
   \<and> client_TestPermissions mem_env 1 (fst (strings_Cut ''forbidden/certs'' ''/'')) mem_world0
       = (Some (Msg ''permission denied''), mem_world0)
   \<and> NewGCS mem_env ''certmagic'' [1] ''forbidden/certs'' proc0
       = (Inl (Class ''certstorage'' (Msg ''permission denied'')),
          proc0\<lparr>trace := [Ext (CallNewClient [1]), Ext (CallTestPermissions ''forbidden'')]\<rparr>)
   \<and> NewGCS mem_env ''certmagic'' [1] ''bucket/certs'' proc0
       = (Inr \<lparr>logger = ''certmagic'', client = 1, bucket = ''bucket'', prefix = ''certs/'',
               locks = Map.empty, mu = False\<rparr>,
          proc0\<lparr>trace := [Ext (CallNewClient [1]), Ext (CallTestPermissions ''bucket'')]\<rparr>)
   \<and> (\<exists>c w1. gcsops_NewClient mem_env [1] (world proc0) = (Inr c, w1)
        \<and> client_TestPermissions mem_env c ''bucket'' w1 = (None, mem_world0))"
proof -
  have a: "gcsops_NewClient mem_env [] (world proc0) = (Inl (Msg ''missing credentials''), mem_world0)"
    and b: "gcsops_NewClient mem_env [1] (world proc0) = (Inr 1, mem_world0)"
    by (simp_all add: mem_env_def proc0_def)
  have cutf: "strings_Cut ''forbidden/certs'' ''/'' = (''forbidden'', ''certs'', True)"
    and cutb: "strings_Cut ''bucket/certs'' ''/'' = (''bucket'', ''certs'', True)"
    by (simp_all add: strings_HasPrefix_def)
  have c: "client_TestPermissions mem_env 1 (fst (strings_Cut ''forbidden/certs'' ''/'')) mem_world0
       = (Some (Msg ''permission denied''), mem_world0)"
    by (simp only: cutf fst_conv) (simp add: mem_env_def)
  have tp: "client_TestPermissions mem_env 1 (fst (strings_Cut ''bucket/certs'' ''/'')) mem_world0
       = (None, mem_world0)"
    by (simp only: cutb fst_conv) (simp add: mem_env_def)
  have w: "world proc0 = mem_world0" "trace proc0 = []"
    by (simp_all add: proc0_def)
  have d: "NewGCS mem_env ''certmagic'' [1] ''bucket/certs'' proc0
       = (Inr \<lparr>logger = ''certmagic'', client = 1, bucket = ''bucket'', prefix = ''certs/'',
               locks = Map.empty, mu = False\<rparr>,
          proc0\<lparr>trace := [Ext (CallNewClient [1]), Ext (CallTestPermissions ''bucket'')]\<rparr>)"
    using NewGCS_succeeds [OF b tp cutb, of "''certmagic''"]
    by (simp add: w strings_TrimSuffix_def strings_HasSuffix_def proc0_def)
  note t = NewGCS_fails_fast [of mem_env _ proc0 "''certmagic''"]
  from t [of "[]" "''bucket/certs''"] a
  have r1: "NewGCS mem_env ''certmagic'' [] ''bucket/certs'' proc0
       = (Inl (Class ''certstorage'' (Msg ''missing credentials'')),
          proc0\<lparr>trace := [Ext (CallNewClient [])]\<rparr>)"
    by (simp add: Class_wrap_def Error_def proc0_def)
  from t [of "[1]" "''forbidden/certs''"] b c
  have r2: "NewGCS mem_env ''certmagic'' [1] ''forbidden/certs'' proc0
       = (Inl (Class ''certstorage'' (Msg ''permission denied'')),
          proc0\<lparr>trace := [Ext (CallNewClient [1]), Ext (CallTestPermissions ''forbidden'')]\<rparr>)"
    by (simp only: cutf fst_conv) (simp add: Class_wrap_def Error_def proc0_def)
  from t [of "[1]" "''bucket/certs''", THEN conjunct2, THEN conjunct2, rule_format, OF d]
  have r3: "\<exists>c w1. gcsops_NewClient mem_env [1] (world proc0) = (Inr c, w1)
        \<and> client_TestPermissions mem_env c ''bucket'' w1 = (None, mem_world0)"
    by (auto simp add: proc0_def simp del: strings_Cut.simps)
  from a b c d r1 r2 r3 show ?thesis by (simp only: simp_thms)
qed

text \<open>
  Claim C5, as amended. For a constructed \<open>GCS\<close>: the prefix is empty when the path has no
  separator; otherwise, with \<open>pre\<close> the text after the first separator, the prefix is \<open>pre\<close>
  when \<open>pre\<close> ends with a separator and \<open>pre\<close> followed by one separator when it does not,
  so it always ends with a separator, and with exactly one unless \<open>pre\<close> itself ends with
  two or more, which are kept. Every storage method addresses the object named by the
  prefix followed by the key, and \<open>Lock\<close> names its mutex the same way.
\<close>

theorem NewGCS_prefix_trailing_separator:
  assumes "fst (NewGCS env lg key path p) = Inr g"
  shows
    "(CHR ''/'' \<notin> set path \<longrightarrow> bucket g = path \<and> prefix g = [])
     \<and> (\<forall>b pre. path = b @ ''/'' @ pre \<and> CHR ''/'' \<notin> set b \<longrightarrow>
          bucket g = b
          \<and> prefix g = (if strings_HasSuffix pre ''/'' then pre else pre @ ''/'')
          \<and> strings_HasSuffix (prefix g) ''/''
          \<and> trailing_seps (prefix g) = max 1 (trailing_seps pre))
     \<and> (\<forall>k v r q.
          calls (trace (snd (Store env k v g q)))
            = calls (trace q) @ [CallUpload (bucket g) (prefix g @ k) v]
          \<and> calls (trace (snd (Load env k g q)))
            = calls (trace q) @ [CallDownload (bucket g) (prefix g @ k)]
          \<and> calls (trace (snd (Delete env k g q)))
            = calls (trace q) @ [CallDelete (bucket g) (prefix g @ k)]
          \<and> calls (trace (snd (Exists env k g q)))
            = calls (trace q) @ [CallStat (bucket g) (prefix g @ k)]
          \<and> calls (trace (snd (List env k r g q)))
            = calls (trace q) @ [CallList (bucket g) (prefix g @ k) r]
          \<and> calls (trace (snd (Stat env k g q)))
            = calls (trace q) @ [CallStat (bucket g) (prefix g @ k)]
          \<and> Name (Lock_options g k) = prefix g @ k)"
proof (intro conjI allI impI)
  assume "CHR ''/'' \<notin> set path"
  then have "strings_Cut path ''/'' = (path, [], False)" by (rule Cut_no_sep)
  from NewGCS_prefix [OF assms this] show "bucket g = path" and "prefix g = []" by simp_all
next
  fix b pre
  assume "path = b @ ''/'' @ pre \<and> CHR ''/'' \<notin> set b"
  then have "strings_Cut path ''/'' = (b, pre, True)" by (simp add: Cut_first_sep)
  from NewGCS_prefix [OF assms this]
  have bp: "bucket g = b" "prefix g = strings_TrimSuffix pre ''/'' @ ''/''" by simp_all
  from bp show "bucket g = b" by simp
  from bp show "prefix g = (if strings_HasSuffix pre ''/'' then pre else pre @ ''/'')"
    by (simp only: TrimSuffix_sep)
  from bp show "strings_HasSuffix (prefix g) ''/''"
    by (simp add: HasSuffix_sep)
  from bp show "trailing_seps (prefix g) = max 1 (trailing_seps pre)"
    by (simp only: trailing_seps_normalized)
qed (simp_all add: Store_call Load_call Delete_call Exists_call List_call Stat_call Lock_options_Name)

theorem NewGCS_prefix_trailing_separator_witness:
  "fst (NewGCS mem_env ''certmagic'' [1] ''bucket/certs'' proc0) = Inr gcs_certs
   \<and> ''bucket/certs'' = ''bucket'' @ ''/'' @ ''certs'' \<and> CHR ''/'' \<notin> set ''bucket''
   \<and> bucket gcs_certs = ''bucket'' \<and> prefix gcs_certs = ''certs/''
   \<and> trailing_seps (prefix gcs_certs) = 1
   \<and> calls (trace (snd (Store mem_env ''example.com.crt'' [1] gcs_certs proc0)))
       = [CallUpload ''bucket'' ''certs/example.com.crt'' [1]]
   \<and> fst (NewGCS mem_env ''certmagic'' [1] ''bucket'' proc0) = Inr gcs0
   \<and> bucket gcs0 = ''bucket'' \<and> prefix gcs0 = []"
proof -
  have cut1: "strings_Cut ''bucket/certs'' ''/'' = (''bucket'', ''certs'', True)"
    and cut2: "strings_Cut ''bucket'' ''/'' = (''bucket'', [], False)"
    by (simp_all add: strings_HasPrefix_def)
  have a: "fst (NewGCS mem_env ''certmagic'' [1] ''bucket/certs'' proc0) = Inr gcs_certs"
    using mem_NewGCS [OF cut1]
    by (simp add: gcs_certs_def strings_TrimSuffix_def strings_HasSuffix_def)
  have b: "fst (NewGCS mem_env ''certmagic'' [1] ''bucket'' proc0) = Inr gcs0"
    using mem_NewGCS [OF cut2] by (simp add: gcs0_def)
  have c: "''bucket/certs'' = ''bucket'' @ ''/'' @ ''certs'' \<and> CHR ''/'' \<notin> set ''bucket''"
    and d: "CHR ''/'' \<notin> set ''bucket''"
    by simp_all
  have t: "trailing_seps ''certs'' = 0" "\<not> strings_HasSuffix ''certs'' ''/''"
    by (simp_all add: trailing_seps_def strings_HasSuffix_def)
  note w1 = NewGCS_prefix_trailing_separator [OF a]
  note w2 = NewGCS_prefix_trailing_separator [OF b]
  from w1 [THEN conjunct2, THEN conjunct1, rule_format, OF c] t
  have r1: "bucket gcs_certs = ''bucket'' \<and> prefix gcs_certs = ''certs/''
      \<and> trailing_seps (prefix gcs_certs) = 1"
    by auto
  from w1 [THEN conjunct2, THEN conjunct2, rule_format, where k = "''example.com.crt''" and v = "[1]" and q = proc0] r1
  have r2: "calls (trace (snd (Store mem_env ''example.com.crt'' [1] gcs_certs proc0)))
       = [CallUpload ''bucket'' ''certs/example.com.crt'' [1]]"
    by (simp add: proc0_def)
  from w2 [THEN conjunct1, rule_format, OF d]
  have r3: "bucket gcs0 = ''bucket'' \<and> prefix gcs0 = []" .
  from a b c r1 r2 r3 show ?thesis by blast
qed

text \<open>
  Claim C5 as it is stated says exactly one trailing separator for every path.
  \<^verbatim>\<open>strings.TrimSuffix\<close> removes one separator only: the path \<open>bucket/certs//\<close> gives the
  prefix \<open>certs//\<close>, with two.
\<close>

theorem NewGCS_keeps_extra_separators_counterexample:
  "map_sum id prefix (fst (NewGCS mem_env ''certmagic'' [1] ''bucket/certs//'' proc0))
     = Inr ''certs//''
   \<and> trailing_seps ''certs//'' = 2"
proof -
  have cut: "strings_Cut ''bucket/certs//'' ''/'' = (''bucket'', ''certs//'', True)"
    by (simp add: strings_HasPrefix_def)
  from mem_NewGCS [OF cut] show ?thesis
    by (simp add: strings_TrimSuffix_def strings_HasSuffix_def trailing_seps_def)
qed

text \<open>
  Claim C10. For a constructed \<open>GCS\<close> whose path has its one separator at the end, the
  prefix is the string \<open>/\<close>, and every storage method addresses the object named \<open>/\<close>
  followed by the key (\<open>Lock\<close> names its mutex so); and the prefix is empty exactly when
  the path has no separator.
\<close>

theorem NewGCS_trailing_separator_only:
  assumes "fst (NewGCS env lg key path p) = Inr g"
  shows
    "(\<forall>b. path = b @ ''/'' \<and> CHR ''/'' \<notin> set b \<longrightarrow>
        bucket g = b \<and> prefix g = ''/''
        \<and> (\<forall>k v r q.
             calls (trace (snd (Store env k v g q))) = calls (trace q) @ [CallUpload b (''/'' @ k) v]
             \<and> calls (trace (snd (Load env k g q))) = calls (trace q) @ [CallDownload b (''/'' @ k)]
             \<and> calls (trace (snd (Delete env k g q))) = calls (trace q) @ [CallDelete b (''/'' @ k)]
             \<and> calls (trace (snd (Exists env k g q))) = calls (trace q) @ [CallStat b (''/'' @ k)]
             \<and> calls (trace (snd (List env k r g q))) = calls (trace q) @ [CallList b (''/'' @ k) r]
             \<and> calls (trace (snd (Stat env k g q))) = calls (trace q) @ [CallStat b (''/'' @ k)]
             \<and> Name (Lock_options g k) = ''/'' @ k))
     \<and> (prefix g = []) = (CHR ''/'' \<notin> set path)"
proof (intro conjI allI impI)
  fix b
  assume "path = b @ ''/'' \<and> CHR ''/'' \<notin> set b"
  then have "strings_Cut path ''/'' = (b, [], True)" by (simp add: Cut_first_sep)
  from NewGCS_prefix [OF assms this]
  have bp: "bucket g = b \<and> prefix g = ''/''"
    by (simp add: strings_TrimSuffix_def strings_HasSuffix_def)
  from bp show "bucket g = b" and "prefix g = ''/''" by simp_all
  fix k v r q
  from bp show "calls (trace (snd (Store env k v g q))) = calls (trace q) @ [CallUpload b (''/'' @ k) v]"
    by (simp add: Store_call)
  from bp show "calls (trace (snd (Load env k g q))) = calls (trace q) @ [CallDownload b (''/'' @ k)]"
    by (simp add: Load_call)
  from bp show "calls (trace (snd (Delete env k g q))) = calls (trace q) @ [CallDelete b (''/'' @ k)]"
    by (simp add: Delete_call)
  from bp show "calls (trace (snd (Exists env k g q))) = calls (trace q) @ [CallStat b (''/'' @ k)]"
    by (simp add: Exists_call)
  from bp show "calls (trace (snd (List env k r g q))) = calls (trace q) @ [CallList b (''/'' @ k) r]"
    by (simp add: List_call)
  from bp show "calls (trace (snd (Stat env k g q))) = calls (trace q) @ [CallStat b (''/'' @ k)]"
    by (simp add: Stat_call)
  from bp show "Name (Lock_options g k) = ''/'' @ k"
    by (simp add: Lock_options_Name)
next
  obtain b pre found where cut: "strings_Cut path ''/'' = (b, pre, found)"
    by (cases "strings_Cut path ''/''")
  from Cut_found [of path] cut have f: "found = (CHR ''/'' \<in> set path)" by simp
  show "(prefix g = []) = (CHR ''/'' \<notin> set path)"
  proof (cases found)
    case True
    with NewGCS_prefix [OF assms cut] f show ?thesis by simp
  next
    case False
    with f have "strings_Cut path ''/'' = (path, [], False)" by (simp add: Cut_no_sep)
    from NewGCS_prefix [OF assms this] False f show ?thesis by simp
  qed
qed

theorem NewGCS_trailing_separator_only_witness:
  "fst (NewGCS mem_env ''certmagic'' [1] ''bucket/'' proc0) = Inr gcs_root
   \<and> ''bucket/'' = ''bucket'' @ ''/'' \<and> CHR ''/'' \<notin> set ''bucket''
   \<and> bucket gcs_root = ''bucket'' \<and> prefix gcs_root = ''/''
   \<and> calls (trace (snd (Load mem_env ''example.com.crt'' gcs_root proc0)))
       = [CallDownload ''bucket'' ''/example.com.crt'']
   \<and> Name (Lock_options gcs_root ''example.com'') = ''/example.com''
   \<and> (prefix gcs_root = []) = (CHR ''/'' \<notin> set ''bucket/'')"
proof -
  have cut: "strings_Cut ''bucket/'' ''/'' = (''bucket'', [], True)"
    by (simp add: strings_HasPrefix_def)
  have a: "fst (NewGCS mem_env ''certmagic'' [1] ''bucket/'' proc0) = Inr gcs_root"
    using mem_NewGCS [OF cut]
    by (simp add: gcs_root_def strings_TrimSuffix_def strings_HasSuffix_def)
  have c: "''bucket/'' = ''bucket'' @ ''/'' \<and> CHR ''/'' \<notin> set ''bucket''"
    by simp
  note w = NewGCS_trailing_separator_only [OF a]
  note w1 = w [THEN conjunct1, rule_format, OF c]
  from w1 have r1: "bucket gcs_root = ''bucket'' \<and> prefix gcs_root = ''/''"
    by simp
  from w1 [THEN conjunct2, THEN conjunct2, rule_format, where k = "''example.com.crt''" and q = proc0]
  have r2: "calls (trace (snd (Load mem_env ''example.com.crt'' gcs_root proc0)))
       = [CallDownload ''bucket'' ''/example.com.crt'']"
    by (simp add: proc0_def)
  from w1 [THEN conjunct2, THEN conjunct2, rule_format, where k = "''example.com''"]
  have r3: "Name (Lock_options gcs_root ''example.com'') = ''/example.com''"
    by simp
  from w [THEN conjunct2]
  have r4: "(prefix gcs_root = []) = (CHR ''/'' \<notin> set ''bucket/'')" .
  from a c r1 r2 r3 r4 show ?thesis by blast
qed

end
